theory Spec2Isabelle
  imports Complex_Main "HOL-Library.AList" "HOL-Library.Monad_Syntax"
begin

section \<open>Decoded documents\<close>

text \<open>
  The values \<^verbatim>\<open>json.loads\<close> returns: \<^verbatim>\<open>None\<close>, \<^verbatim>\<open>bool\<close>, \<^verbatim>\<open>int\<close>, \<^verbatim>\<open>float\<close>,
  \<^verbatim>\<open>str\<close>, \<^verbatim>\<open>list\<close> and \<^verbatim>\<open>dict\<close>. A Python \<^verbatim>\<open>dict\<close> keeps its keys in insertion order, so it
  is an association list; a lookup reads it with \<open>map_of\<close>. A float is the real number it
  denotes (the program never computes with one), a string is the list of its characters.
\<close>

datatype json =
    JNull
  | JBool bool
  | JInt int
  | JFloat real
  | JStr string
  | JArr "json list"
  | JObj "(string \<times> json) list"

type_synonym pydict = "(string \<times> json) list"

text \<open>\<^verbatim>\<open>d.get(key, default)\<close>\<close>

definition dict_get :: "pydict \<Rightarrow> string \<Rightarrow> json \<Rightarrow> json" where
  "dict_get d key dflt = (case map_of d key of Some v \<Rightarrow> v | None \<Rightarrow> dflt)"

text \<open>
  \<^verbatim>\<open>if key in kernel: d[key] = kernel[key]\<close>. The store \<^verbatim>\<open>d[key] = v\<close> replaces the value of
  a key the dict has, at its place, and appends a new key otherwise: \<open>AList.update\<close>.
\<close>

definition copy_key :: "pydict \<Rightarrow> pydict \<Rightarrow> string \<Rightarrow> pydict" where
  "copy_key kern d key =
     (case map_of kern key of Some v \<Rightarrow> AList.update key v d | None \<Rightarrow> d)"

text \<open>\<^verbatim>\<open>for key in keys: if key in kernel: d[key] = kernel[key]\<close>, from the empty dict.\<close>

definition copy_keys :: "pydict \<Rightarrow> string list \<Rightarrow> pydict" where
  "copy_keys kern keys = foldl (copy_key kern) [] keys"

text \<open>
  A dict display \<^verbatim>\<open>{k1: v1, ..., **d}\<close>: the items are stored from left to right, a later
  one overriding an earlier one with the same key.
\<close>

definition dict_display :: "(string \<times> 'v) list \<Rightarrow> (string \<times> 'v) list" where
  "dict_display items = foldl (\<lambda>d (k, v). AList.update k v d) [] items"

section \<open>The segmenter: \<^verbatim>\<open>chunk_single_kernel\<close>\<close>

text \<open>
  The ten blocks of \<^verbatim>\<open>chunk_single_kernel\<close>, in the order of the source. Each takes the
  record (the parameter \<^verbatim>\<open>kernel\<close>, here \<open>kern\<close>) and the list \<^verbatim>\<open>sections\<close> built so far, and
  returns the list after the block.
\<close>

definition rule_header :: "pydict \<Rightarrow> json list \<Rightarrow> json list" where
  "rule_header kern sections =
     (let header = copy_keys kern
            [''id'', ''title'', ''version'', ''extraction_date'', ''source'', ''deck_id'',
             ''kernel_count'', ''compression_ratio'']
      in if header \<noteq> [] then
           sections @ [JObj (dict_display
             [(''section'', JStr ''header''),
              (''title'', dict_get kern ''title'' (JStr ''Header'')),
              (''id'', dict_get kern ''id'' (JStr ''unknown'')),
              (''data'', JObj header)])]
         else sections)"

definition rule_emotional_arc :: "pydict \<Rightarrow> json list \<Rightarrow> json list" where
  "rule_emotional_arc kern sections =
     (case map_of kern ''emotional_arc'' of
        Some v \<Rightarrow>
          sections @ [JObj (dict_display
            [(''section'', JStr ''emotional_arc''),
             (''title'', JStr ''Emotional Arc''),
             (''id'', dict_get kern ''id'' (JStr ''unknown'')),
             (''emotional_arc'', v)])]
      | None \<Rightarrow> sections)"

definition rule_heat_signature :: "pydict \<Rightarrow> json list \<Rightarrow> json list" where
  "rule_heat_signature kern sections =
     (case map_of kern ''heat_signature'' of
        Some v \<Rightarrow>
          sections @ [JObj (dict_display
            [(''section'', JStr ''heat_signature''),
             (''title'', JStr ''Heat Signature''),
             (''id'', dict_get kern ''id'' (JStr ''unknown'')),
             (''heat_signature'', v)])]
      | None \<Rightarrow> sections)"

definition rule_language_motifs :: "pydict \<Rightarrow> json list \<Rightarrow> json list" where
  "rule_language_motifs kern sections =
     (let lang_motifs = [];
          lang_motifs = copy_key kern lang_motifs ''language_patterns'';
          lang_motifs = copy_key kern lang_motifs ''motifs''
      in if lang_motifs \<noteq> [] then
           sections @ [JObj (dict_display
             ([(''section'', JStr ''language_motifs''),
               (''title'', JStr ''Language & Motifs''),
               (''id'', dict_get kern ''id'' (JStr ''unknown''))] @ lang_motifs))]
         else sections)"

definition rule_physical_anchors :: "pydict \<Rightarrow> json list \<Rightarrow> json list" where
  "rule_physical_anchors kern sections =
     (case map_of kern ''physical_anchors'' of
        Some v \<Rightarrow>
          sections @ [JObj (dict_display
            [(''section'', JStr ''physical_anchors''),
             (''title'', JStr ''Physical Anchors''),
             (''id'', dict_get kern ''id'' (JStr ''unknown'')),
             (''physical_anchors'', v)])]
      | None \<Rightarrow> sections)"

definition rule_visual_description :: "pydict \<Rightarrow> json list \<Rightarrow> json list" where
  "rule_visual_description kern sections =
     (case map_of kern ''visual_description'' of
        Some v \<Rightarrow>
          sections @ [JObj (dict_display
            [(''section'', JStr ''visual_description''),
             (''title'', JStr ''Visual Description''),
             (''id'', dict_get kern ''id'' (JStr ''unknown'')),
             (''visual_description'', v)])]
      | None \<Rightarrow> sections)"

definition rule_dynamics :: "pydict \<Rightarrow> json list \<Rightarrow> json list" where
  "rule_dynamics kern sections =
     (let dynamics = copy_keys kern [''consent_pattern'', ''power_dynamic'', ''aftercare'']
      in if dynamics \<noteq> [] then
           sections @ [JObj (dict_display
             ([(''section'', JStr ''dynamics''),
               (''title'', JStr ''Relationship Dynamics''),
               (''id'', dict_get kern ''id'' (JStr ''unknown''))] @ dynamics))]
         else sections)"

definition rule_core_truth :: "pydict \<Rightarrow> json list \<Rightarrow> json list" where
  "rule_core_truth kern sections =
     (let core = copy_keys kern
            [''pattern_boundaries'', ''what_makes_it_work'', ''core_truth'', ''why_it_matters'']
      in if core \<noteq> [] then
           sections @ [JObj (dict_display
             ([(''section'', JStr ''core_truth''),
               (''title'', JStr ''Core Truth & Boundaries''),
               (''id'', dict_get kern ''id'' (JStr ''unknown''))] @ core))]
         else sections)"

definition rule_cubic_attractor :: "pydict \<Rightarrow> json list \<Rightarrow> json list" where
  "rule_cubic_attractor kern sections =
     (case map_of kern ''cubic_attractor'' of
        Some v \<Rightarrow>
          sections @ [JObj (dict_display
            [(''section'', JStr ''cubic_attractor''),
             (''title'', JStr ''Cubic Attractor (Identity)''),
             (''id'', dict_get kern ''id'' (JStr ''unknown'')),
             (''cubic_attractor'', v)])]
      | None \<Rightarrow> sections)"

definition rule_export :: "pydict \<Rightarrow> json list \<Rightarrow> json list" where
  "rule_export kern sections =
     (let export = copy_keys kern
            [''replication_notes'', ''export_notes'', ''closing_image'', ''heat_at_close'',
             ''sigil'']
      in if export \<noteq> [] then
           sections @ [JObj (dict_display
             ([(''section'', JStr ''export''),
               (''title'', JStr ''Export Notes''),
               (''id'', dict_get kern ''id'' (JStr ''unknown''))] @ export))]
         else sections)"

text \<open>The value of \<^verbatim>\<open>sections\<close> when the ten blocks have run, from \<^verbatim>\<open>sections = []\<close>.\<close>

definition extract_sections :: "pydict \<Rightarrow> json list" where
  "extract_sections kern =
     (let sections = [];
          sections = rule_header kern sections;
          sections = rule_emotional_arc kern sections;
          sections = rule_heat_signature kern sections;
          sections = rule_language_motifs kern sections;
          sections = rule_physical_anchors kern sections;
          sections = rule_visual_description kern sections;
          sections = rule_dynamics kern sections;
          sections = rule_core_truth kern sections;
          sections = rule_cubic_attractor kern sections;
          sections = rule_export kern sections
      in sections)"

text \<open>\<^verbatim>\<open>return sections if len(sections) > 1 else [kernel]\<close>\<close>

definition chunk_single_kernel :: "pydict \<Rightarrow> json list" where
  "chunk_single_kernel kern =
     (let sections = extract_sections kern
      in if length sections > 1 then sections else [JObj kern])"

section \<open>The segmenter on a store\<close>

text \<open>
  Python's lists and dicts are objects, held by reference: the sections share the values
  of the record, and the fallback result holds the record itself. To state what
  \<^verbatim>\<open>chunk_single_kernel\<close> writes, the same function is modelled on a store. An object lives
  at an address, the store is the list of the objects allocated so far, and a value is a
  scalar or a reference to an object.
\<close>

type_synonym addr = nat

datatype hval = HNull | HBool bool | HInt int | HFloat real | HStr string | HRef addr

datatype hobj = HList "hval list" | HDict "(string \<times> hval) list"

type_synonym heap = "hobj list"

text \<open>A new object (\<^verbatim>\<open>[]\<close>, \<^verbatim>\<open>{}\<close>, a dict display) takes the next address.\<close>

definition new_obj :: "hobj \<Rightarrow> heap \<Rightarrow> addr \<times> heap" where
  "new_obj ob h = (length h, h @ [ob])"

text \<open>Reading an address as a dict or as a list; \<open>None\<close> where Python raises.\<close>

definition dict_at :: "heap \<Rightarrow> addr \<Rightarrow> (string \<times> hval) list option" where
  "dict_at h a =
     (if a < length h then (case h ! a of HDict d \<Rightarrow> Some d | HList xs \<Rightarrow> None) else None)"

definition list_at :: "heap \<Rightarrow> addr \<Rightarrow> hval list option" where
  "list_at h a =
     (if a < length h then (case h ! a of HList xs \<Rightarrow> Some xs | HDict d \<Rightarrow> None) else None)"

text \<open>\<^verbatim>\<open>d[key] = v\<close> and \<^verbatim>\<open>xs.append(v)\<close>: the writes of the function.\<close>

definition store_item :: "addr \<Rightarrow> string \<Rightarrow> hval \<Rightarrow> heap \<Rightarrow> heap option" where
  "store_item a key v h = do {
     d \<leftarrow> dict_at h a;
     Some (h[a := HDict (AList.update key v d)])
   }"

definition list_append :: "addr \<Rightarrow> hval \<Rightarrow> heap \<Rightarrow> heap option" where
  "list_append a v h = do {
     xs \<leftarrow> list_at h a;
     Some (h[a := HList (xs @ [v])])
   }"

text \<open>\<^verbatim>\<open>kernel.get(key, default)\<close>\<close>

definition h_get :: "heap \<Rightarrow> addr \<Rightarrow> string \<Rightarrow> hval \<Rightarrow> hval option" where
  "h_get h kern key dflt = do {
     kd \<leftarrow> dict_at h kern;
     Some (case map_of kd key of Some v \<Rightarrow> v | None \<Rightarrow> dflt)
   }"

text \<open>\<^verbatim>\<open>if key in kernel: d[key] = kernel[key]\<close>, and the loop over a list of keys.\<close>

definition h_copy_key :: "addr \<Rightarrow> addr \<Rightarrow> string \<Rightarrow> heap \<Rightarrow> heap option" where
  "h_copy_key kern d key h = do {
     kd \<leftarrow> dict_at h kern;
     case map_of kd key of Some v \<Rightarrow> store_item d key v h | None \<Rightarrow> Some h
   }"

fun h_copy_keys :: "addr \<Rightarrow> addr \<Rightarrow> string list \<Rightarrow> heap \<Rightarrow> heap option" where
  "h_copy_keys kern d [] h = Some h"
| "h_copy_keys kern d (key # keys) h = do {
     h \<leftarrow> h_copy_key kern d key h;
     h_copy_keys kern d keys h
   }"

text \<open>\<^verbatim>\<open>sections.append({...})\<close>: the dict display is a new object.\<close>

definition h_section :: "addr \<Rightarrow> (string \<times> hval) list \<Rightarrow> heap \<Rightarrow> heap option" where
  "h_section sections items h =
     (let (sec, h) = new_obj (HDict (dict_display items)) h
      in list_append sections (HRef sec) h)"

text \<open>Block 1, the header.\<close>

definition h_rule_header :: "addr \<Rightarrow> addr \<Rightarrow> heap \<Rightarrow> heap option" where
  "h_rule_header kern sections h =
     (let (header, h) = new_obj (HDict []) h
      in do {
        h \<leftarrow> h_copy_keys kern header
               [''id'', ''title'', ''version'', ''extraction_date'', ''source'', ''deck_id'',
                ''kernel_count'', ''compression_ratio''] h;
        items \<leftarrow> dict_at h header;
        if items \<noteq> [] then do {
          t \<leftarrow> h_get h kern ''title'' (HStr ''Header'');
          i \<leftarrow> h_get h kern ''id'' (HStr ''unknown'');
          h_section sections
            [(''section'', HStr ''header''), (''title'', t), (''id'', i),
             (''data'', HRef header)] h
        } else Some h
      })"

text \<open>
  Blocks 2, 3, 5, 6 and 9 have one shape: a section for one field, under the field's name.
\<close>

definition h_rule_single ::
    "string \<Rightarrow> string \<Rightarrow> string \<Rightarrow> addr \<Rightarrow> addr \<Rightarrow> heap \<Rightarrow> heap option" where
  "h_rule_single tag label key kern sections h = do {
     kd \<leftarrow> dict_at h kern;
     case map_of kd key of
       Some v \<Rightarrow> do {
         i \<leftarrow> h_get h kern ''id'' (HStr ''unknown'');
         h_section sections
           [(''section'', HStr tag), (''title'', HStr label), (''id'', i), (key, v)] h
       }
     | None \<Rightarrow> Some h
   }"

text \<open>
  Blocks 4, 7, 8 and 10 have one shape: the fields present are gathered in a new dict, which
  is spread into the section when it is not empty.
\<close>

definition h_rule_spread ::
    "string \<Rightarrow> string \<Rightarrow> string list \<Rightarrow> addr \<Rightarrow> addr \<Rightarrow> heap \<Rightarrow> heap option" where
  "h_rule_spread tag label keys kern sections h =
     (let (d, h) = new_obj (HDict []) h
      in do {
        h \<leftarrow> h_copy_keys kern d keys h;
        items \<leftarrow> dict_at h d;
        if items \<noteq> [] then do {
          i \<leftarrow> h_get h kern ''id'' (HStr ''unknown'');
          h_section sections
            ([(''section'', HStr tag), (''title'', HStr label), (''id'', i)] @ items) h
        } else Some h
      })"

text \<open>
  \<^verbatim>\<open>chunk_single_kernel\<close> on the store: the address of the list it returns and the store it
  leaves; \<open>None\<close> when \<open>kern\<close> is not the address of a dict.
\<close>

definition h_chunk_single_kernel :: "addr \<Rightarrow> heap \<Rightarrow> (addr \<times> heap) option" where
  "h_chunk_single_kernel kern h =
     (let (sections, h) = new_obj (HList []) h
      in do {
        h \<leftarrow> h_rule_header kern sections h;
        h \<leftarrow> h_rule_single ''emotional_arc'' ''Emotional Arc'' ''emotional_arc'' kern sections h;
        h \<leftarrow> h_rule_single ''heat_signature'' ''Heat Signature'' ''heat_signature''
               kern sections h;
        h \<leftarrow> h_rule_spread ''language_motifs'' ''Language & Motifs''
               [''language_patterns'', ''motifs''] kern sections h;
        h \<leftarrow> h_rule_single ''physical_anchors'' ''Physical Anchors'' ''physical_anchors''
               kern sections h;
        h \<leftarrow> h_rule_single ''visual_description'' ''Visual Description''
               ''visual_description'' kern sections h;
        h \<leftarrow> h_rule_spread ''dynamics'' ''Relationship Dynamics''
               [''consent_pattern'', ''power_dynamic'', ''aftercare''] kern sections h;
        h \<leftarrow> h_rule_spread ''core_truth'' ''Core Truth & Boundaries''
               [''pattern_boundaries'', ''what_makes_it_work'', ''core_truth'',
                ''why_it_matters''] kern sections h;
        h \<leftarrow> h_rule_single ''cubic_attractor'' ''Cubic Attractor (Identity)''
               ''cubic_attractor'' kern sections h;
        h \<leftarrow> h_rule_spread ''export'' ''Export Notes''
               [''replication_notes'', ''export_notes'', ''closing_image'', ''heat_at_close'',
                ''sigil''] kern sections h;
        secs \<leftarrow> list_at h sections;
        if length secs > 1 then Some (sections, h)
        else Some (new_obj (HList [HRef kern]) h)
      })"

text \<open>
  What a value of the store stands for: \<open>denotes_in F h v j\<close> says that \<open>v\<close>, read in the store
  \<open>h\<close> through objects at addresses of \<open>F\<close> only, is the decoded value \<open>j\<close>. A dict keeps its
  keys and their order.
\<close>

inductive denotes_in :: "addr set \<Rightarrow> heap \<Rightarrow> hval \<Rightarrow> json \<Rightarrow> bool"
    for F :: "addr set" and h :: heap where
  d_null: "denotes_in F h HNull JNull"
| d_bool: "denotes_in F h (HBool b) (JBool b)"
| d_int: "denotes_in F h (HInt i) (JInt i)"
| d_float: "denotes_in F h (HFloat r) (JFloat r)"
| d_str: "denotes_in F h (HStr s) (JStr s)"
| d_list: "a \<in> F \<Longrightarrow> a < length h \<Longrightarrow> h ! a = HList xs
            \<Longrightarrow> list_all2 (denotes_in F h) xs js \<Longrightarrow> denotes_in F h (HRef a) (JArr js)"
| d_dict: "a \<in> F \<Longrightarrow> a < length h \<Longrightarrow> h ! a = HDict d
            \<Longrightarrow> map fst d = map fst kd
            \<Longrightarrow> list_all2 (denotes_in F h) (map snd d) (map snd kd)
            \<Longrightarrow> denotes_in F h (HRef a) (JObj kd)"

section \<open>The controller: \<^verbatim>\<open>KernelChunker\<close>\<close>

subsection \<open>Python values\<close>

text \<open>Truth of a decoded value, as \<^verbatim>\<open>if x:\<close> and \<^verbatim>\<open>not x\<close> read it.\<close>

definition truthy :: "json \<Rightarrow> bool" where
  "truthy x =
     (case x of
        JNull \<Rightarrow> False
      | JBool b \<Rightarrow> b
      | JInt i \<Rightarrow> i \<noteq> 0
      | JFloat r \<Rightarrow> r \<noteq> 0
      | JStr s \<Rightarrow> s \<noteq> []
      | JArr xs \<Rightarrow> xs \<noteq> []
      | JObj d \<Rightarrow> d \<noteq> [])"

text \<open>
  \<^verbatim>\<open>str.isspace\<close> on the code points a \<open>char\<close> has (below 256), and \<^verbatim>\<open>str.strip()\<close>.
\<close>

definition isspace :: "char \<Rightarrow> bool" where
  "isspace c =
     (let n = (of_char c :: nat)
      in (9 \<le> n \<and> n \<le> 13) \<or> (28 \<le> n \<and> n \<le> 32) \<or> n = 133 \<or> n = 160)"

definition strip :: "string \<Rightarrow> string" where
  "strip s = rev (dropWhile isspace (rev (dropWhile isspace s)))"

text \<open>The decimal text of an integer, as an f-string prints it.\<close>

fun str_nat :: "nat \<Rightarrow> string" where
  "str_nat n =
     (if n < 10 then [''0123456789'' ! n]
      else str_nat (n div 10) @ [''0123456789'' ! (n mod 10)])"

declare str_nat.simps [simp del]

definition str_int :: "int \<Rightarrow> string" where
  "str_int i = (if i < 0 then ''-'' @ str_nat (nat (- i)) else str_nat (nat i))"

text \<open>
  \<^verbatim>\<open>xs[i]\<close> on a list of length \<open>n\<close>: the indices from 0 to \<open>n - 1\<close> read from the front, those
  from \<open>-n\<close> to \<open>-1\<close> read from the back, and every other index raises (\<open>None\<close>).
\<close>

definition py_index :: "'a list \<Rightarrow> int \<Rightarrow> 'a option" where
  "py_index xs i =
     (if 0 \<le> i \<and> i < int (length xs) then Some (xs ! nat i)
      else if - int (length xs) \<le> i \<and> i < 0 then Some (xs ! nat (int (length xs) + i))
      else None)"

text \<open>
  What a handler leaves behind. An exception that leaves a Qt slot is not caught anywhere
  in the program (PyQt6 then aborts the process), so it ends the run: \<open>Crash\<close>.
\<close>

datatype 'a outcome = Returned 'a | Crash

text \<open>
  \<^verbatim>\<open>json.loads\<close> and \<^verbatim>\<open>json.dumps(x, indent=2)\<close> belong to Python's library, not to the
  program: they are parameters \<open>loads\<close> and \<open>dumps\<close> of the handlers below. \<open>loads\<close> returns the
  decoded value, or raises \<^verbatim>\<open>JSONDecodeError\<close> with a message, or raises something else
  (\<^verbatim>\<open>RecursionError\<close> on a deeply nested text), which \<^verbatim>\<open>process_chunks\<close> does not catch.
\<close>

datatype loads_result = Decoded json | JSONDecodeError string | OtherError

subsection \<open>\<^verbatim>\<open>ChunkCard\<close>\<close>

record chunk_card =
  chunk_num :: int
  kernel_data :: json
  is_copied :: bool

text \<open>
  \<^verbatim>\<open>if len(x) > n: x = x[:n-3] + "..."\<close> (for the id, \<^verbatim>\<open>"..." + x[-(n-3):]\<close>): whether it runs
  without an exception. \<^verbatim>\<open>len\<close> raises on \<^verbatim>\<open>None\<close>, a bool and a number; a long list or dict
  fails at the slice or at the concatenation with a string.
\<close>

definition shorten_ok :: "json \<Rightarrow> nat \<Rightarrow> bool" where
  "shorten_ok x n =
     (case x of
        JStr s \<Rightarrow> True
      | JArr xs \<Rightarrow> \<not> length xs > n
      | JObj d \<Rightarrow> \<not> length d > n
      | _ \<Rightarrow> False)"

text \<open>\<^verbatim>\<open>section_names.get(section_type, section_type)\<close> hashes its key: a list or dict raises.\<close>

definition hashable :: "json \<Rightarrow> bool" where
  "hashable x = (case x of JArr xs \<Rightarrow> False | JObj d \<Rightarrow> False | _ \<Rightarrow> True)"

text \<open>
  \<^verbatim>\<open>f"{x:.1f}"\<close> formats a float, a bool and an int that converts to a float (one that rounds
  to less than \<open>2 ^ 1024\<close>); it raises on anything else.
\<close>

definition format_1f_ok :: "json \<Rightarrow> bool" where
  "format_1f_ok x =
     (case x of
        JInt i \<Rightarrow> \<bar>i\<bar> < 2 ^ 1024 - 2 ^ 970
      | JFloat r \<Rightarrow> True
      | JBool b \<Rightarrow> True
      | _ \<Rightarrow> False)"

text \<open>
  The heat preview of \<^verbatim>\<open>init_ui\<close>, for a truthy \<^verbatim>\<open>heat\<close>: \<^verbatim>\<open>heat.get\<close> needs a dict, and the
  three values are formatted with \<^verbatim>\<open>:.1f\<close>.
\<close>

definition heat_preview_ok :: "json \<Rightarrow> bool" where
  "heat_preview_ok heat =
     (case heat of
        JObj h \<Rightarrow>
          format_1f_ok (dict_get h ''tenderness'' (JInt 0)) \<and>
          format_1f_ok (dict_get h ''trust'' (JInt 0)) \<and>
          format_1f_ok (dict_get h ''erotic_charge'' (JInt 0))
      | _ \<Rightarrow> False)"

text \<open>
  \<^verbatim>\<open>ChunkCard(chunk_num, kernel_data)\<close>: \<^verbatim>\<open>__init__\<close> and \<^verbatim>\<open>init_ui\<close>. The model keeps the
  fields of the card and whether the constructor raises (\<open>None\<close>); the label texts and
  style sheets it builds are presentation and left out. \<^verbatim>\<open>kernel_data.get\<close> needs a dict.
\<close>

definition ChunkCard :: "int \<Rightarrow> json \<Rightarrow> chunk_card option" where
  "ChunkCard num data =
     (case data of
        JObj d \<Rightarrow>
          (let title = dict_get d ''title'' (JStr (''Kernel '' @ str_int num));
               section_type = dict_get d ''section'' JNull;
               heat = dict_get d ''heat_signature'' (JObj [])
           in if \<not> shorten_ok title 50 then None
              else if truthy section_type \<and> \<not> hashable section_type then None
              else if \<not> truthy section_type
                      \<and> \<not> shorten_ok (dict_get d ''id'' (JStr ''unknown'')) 40 then None
              else if truthy heat \<and> \<not> heat_preview_ok heat then None
              else Some \<lparr>chunk_num = num, kernel_data = data, is_copied = False\<rparr>)
      | _ \<Rightarrow> None)"

subsection \<open>The window\<close>

text \<open>
  The fields of \<^verbatim>\<open>KernelChunker\<close> that the handlers read and write: the text of the input
  area, the status line, \<^verbatim>\<open>chunks\<close>, \<^verbatim>\<open>current_chunk_index\<close>, the cards of \<^verbatim>\<open>chunks_layout\<close>
  in their order, the sequential-copy button, and the text of the system clipboard.
\<close>

record kernel_chunker =
  drop_zone :: string
  status_label :: string
  chunks :: "json list"
  current_chunk_index :: int
  cards :: "chunk_card list"
  copy_all_btn_enabled :: bool
  copy_all_btn_text :: string
  clipboard :: string

text \<open>The window after \<^verbatim>\<open>__init__\<close>; \<open>clip\<close> is what the clipboard holds at that time.\<close>

definition init :: "string \<Rightarrow> kernel_chunker" where
  "init clip =
     \<lparr>drop_zone = [], status_label = ''Ready - Drop or paste a kernel deck'', chunks = [],
      current_chunk_index = 0, cards = [], copy_all_btn_enabled = False,
      copy_all_btn_text = ''COPY ALL (Sequentially)'', clipboard = clip\<rparr>"

definition update_copy_all_button :: "kernel_chunker \<Rightarrow> kernel_chunker" where
  "update_copy_all_button self =
     (if chunks self \<noteq> [] then
        (let remaining = int (length (chunks self)) - current_chunk_index self
         in if remaining \<le> 0 then self\<lparr>copy_all_btn_text := ''START OVER''\<rparr>
            else self\<lparr>copy_all_btn_text :=
                   ''COPY NEXT ('' @ str_int (current_chunk_index self + 1) @ ''/''
                     @ str_nat (length (chunks self)) @ '')''\<rparr>)
      else self)"

definition clear_chunks :: "kernel_chunker \<Rightarrow> kernel_chunker" where
  "clear_chunks self = self\<lparr>cards := []\<rparr>"

definition reset_all_cards :: "kernel_chunker \<Rightarrow> kernel_chunker" where
  "reset_all_cards self = self\<lparr>cards := map (\<lambda>c. c\<lparr>is_copied := False\<rparr>) (cards self)\<rparr>"

text \<open>
  \<^verbatim>\<open>ChunkCard.copy_kernel\<close> of the card at position \<open>i\<close> of the layout (its COPY button):
  the card's own data goes to the clipboard and the card is marked.
\<close>

definition copy_kernel :: "(json \<Rightarrow> string) \<Rightarrow> nat \<Rightarrow> kernel_chunker \<Rightarrow> kernel_chunker" where
  "copy_kernel dumps i self =
     self\<lparr>clipboard := dumps (kernel_data (cards self ! i)),
          cards := (cards self)[i := (cards self ! i)\<lparr>is_copied := True\<rparr>]\<rparr>"

text \<open>\<^verbatim>\<open>grey_out_card(index)\<close>: the card counted \<open>index\<close> from 0, if the layout has one.\<close>

definition grey_out_card :: "(json \<Rightarrow> string) \<Rightarrow> int \<Rightarrow> kernel_chunker \<Rightarrow> kernel_chunker" where
  "grey_out_card dumps index self =
     (if 0 \<le> index \<and> index < int (length (cards self)) then copy_kernel dumps (nat index) self
      else self)"

text \<open>\<^verbatim>\<open>for i, kernel in enumerate(kernels, 1): card = ChunkCard(i, kernel); ...\<close>\<close>

fun make_cards :: "int \<Rightarrow> json list \<Rightarrow> chunk_card list option" where
  "make_cards i [] = Some []"
| "make_cards i (k # ks) =
     (case ChunkCard i k of
        None \<Rightarrow> None
      | Some c \<Rightarrow>
          (case make_cards (i + 1) ks of None \<Rightarrow> None | Some cs \<Rightarrow> Some (c # cs)))"

text \<open>
  The block \<^verbatim>\<open># Extract kernels\<close> of \<^verbatim>\<open>process_chunks\<close>: the status message of an early
  return, or \<^verbatim>\<open>kernels\<close> and \<^verbatim>\<open>is_sectioned\<close>.
\<close>

definition extract_kernels :: "json \<Rightarrow> string + (json \<times> bool)" where
  "extract_kernels data =
     (case data of
        JObj d \<Rightarrow>
          (case map_of d ''kernels'' of
             Some ks \<Rightarrow> Inr (ks, False)
           | None \<Rightarrow>
               if map_of d ''id'' \<noteq> None \<and>
                  (map_of d ''emotional_arc'' \<noteq> None \<or> map_of d ''heat_signature'' \<noteq> None \<or>
                   map_of d ''cubic_attractor'' \<noteq> None)
               then (let kernels = chunk_single_kernel d
                     in Inr (JArr kernels, length kernels > 1))
               else Inl ''No kernels found in JSON'')
      | JArr xs \<Rightarrow> Inr (JArr xs, False)
      | _ \<Rightarrow> Inl ''Unexpected JSON format'')"

text \<open>
  \<^verbatim>\<open>process_chunks\<close>. A truthy \<^verbatim>\<open>kernels\<close> that is not a list (the value of the key
  \<^verbatim>\<open>"kernels"\<close> may be anything) ends in an exception: \<^verbatim>\<open>enumerate\<close> raises on a number and a
  bool, and the items of a string or dict are strings, on which \<^verbatim>\<open>ChunkCard\<close> raises.
\<close>

definition process_chunks ::
    "(string \<Rightarrow> loads_result) \<Rightarrow> kernel_chunker \<Rightarrow> kernel_chunker outcome" where
  "process_chunks loads self =
     (let text = strip (drop_zone self)
      in if text = [] then
           Returned (self\<lparr>status_label := ''No input - paste or drop a kernel deck''\<rparr>)
         else
           (case loads text of
              JSONDecodeError e \<Rightarrow> Returned (self\<lparr>status_label := ''Invalid JSON: '' @ e\<rparr>)
            | OtherError \<Rightarrow> Crash
            | Decoded data \<Rightarrow>
                (case extract_kernels data of
                   Inl msg \<Rightarrow> Returned (self\<lparr>status_label := msg\<rparr>)
                 | Inr (kernels, is_sectioned) \<Rightarrow>
                     if \<not> truthy kernels then
                       Returned (self\<lparr>status_label := ''No kernels found''\<rparr>)
                     else
                       (case kernels of
                          JArr ks \<Rightarrow>
                            (case make_cards 1 ks of
                               None \<Rightarrow> Crash
                             | Some cs \<Rightarrow>
                                 Returned (update_copy_all_button
                                   ((clear_chunks self)
                                      \<lparr>chunks := ks, current_chunk_index := 0, cards := cs,
                                       status_label :=
                                         (if is_sectioned then
                                            ''Split into '' @ str_nat (length ks)
                                              @ '' sections - copy sequentially for best results''
                                          else
                                            ''Found '' @ str_nat (length ks)
                                              @ '' kernels - click COPY on each or use sequential copy''),
                                       copy_all_btn_enabled := True\<rparr>)))
                        | _ \<Rightarrow> Crash))))"

definition clear_all :: "kernel_chunker \<Rightarrow> kernel_chunker" where
  "clear_all self =
     (clear_chunks (self\<lparr>drop_zone := []\<rparr>))
       \<lparr>chunks := [], current_chunk_index := 0,
        status_label := ''Cleared - ready for new input'', copy_all_btn_enabled := False\<rparr>"

definition copy_next_chunk ::
    "(json \<Rightarrow> string) \<Rightarrow> kernel_chunker \<Rightarrow> kernel_chunker outcome" where
  "copy_next_chunk dumps self =
     (if current_chunk_index self \<ge> int (length (chunks self)) then
        Returned
          ((update_copy_all_button (reset_all_cards (self\<lparr>current_chunk_index := 0\<rparr>)))
             \<lparr>status_label := ''Reset - ready to copy again''\<rparr>)
      else if chunks self \<noteq> [] then
        (case py_index (chunks self) (current_chunk_index self) of
           None \<Rightarrow> Crash
         | Some kern \<Rightarrow>
             (let self = self\<lparr>clipboard := dumps kern\<rparr>;
                  self = grey_out_card dumps (current_chunk_index self) self;
                  self = self\<lparr>current_chunk_index := current_chunk_index self + 1\<rparr>
              in Returned (update_copy_all_button self)))
      else Returned self)"

subsection \<open>Reachable states\<close>

text \<open>
  The states of a run that has not crashed. The CHUNK and CLEAR buttons call
  \<^verbatim>\<open>process_chunks\<close> and \<^verbatim>\<open>clear_all\<close>; the sequential-copy button calls \<^verbatim>\<open>copy_next_chunk\<close>
  and is clickable only while enabled; every card has a COPY button. Typing, pasting,
  \<^verbatim>\<open>load_file\<close> and \<^verbatim>\<open>dropEvent\<close> write the input area and the status line and nothing else;
  another application may change the clipboard.
\<close>

inductive reachable ::
    "(string \<Rightarrow> loads_result) \<Rightarrow> (json \<Rightarrow> string) \<Rightarrow> kernel_chunker \<Rightarrow> bool"
    for loads :: "string \<Rightarrow> loads_result" and dumps :: "json \<Rightarrow> string" where
  start: "reachable loads dumps (init clip)"
| input: "reachable loads dumps s \<Longrightarrow> reachable loads dumps (s\<lparr>drop_zone := t, status_label := m\<rparr>)"
| chunk: "reachable loads dumps s \<Longrightarrow> process_chunks loads s = Returned s'
            \<Longrightarrow> reachable loads dumps s'"
| clear: "reachable loads dumps s \<Longrightarrow> reachable loads dumps (clear_all s)"
| copy_next: "reachable loads dumps s \<Longrightarrow> copy_all_btn_enabled s
            \<Longrightarrow> copy_next_chunk dumps s = Returned s' \<Longrightarrow> reachable loads dumps s'"
| copy_card: "reachable loads dumps s \<Longrightarrow> i < length (cards s)
            \<Longrightarrow> reachable loads dumps (copy_kernel dumps i s)"
| other_app: "reachable loads dumps s \<Longrightarrow> reachable loads dumps (s\<lparr>clipboard := t\<rparr>)"

section \<open>Vocabulary of the properties\<close>

text \<open>The value a chunk has under a key; \<open>None\<close> when it has none or is not a mapping.\<close>

definition field :: "json \<Rightarrow> string \<Rightarrow> json option" where
  "field s key = (case s of JObj d \<Rightarrow> map_of d key | _ \<Rightarrow> None)"

definition tags_of :: "json list \<Rightarrow> json option list" where
  "tags_of secs = map (\<lambda>s. field s ''section'') secs"

text \<open>
  The ten rules as a table, in their order: the tag, the label written in the rule, and the
  fields that trigger it.
\<close>

definition rule_table :: "(string \<times> string \<times> string list) list" where
  "rule_table =
     [(''header'', ''Header'',
         [''id'', ''title'', ''version'', ''extraction_date'', ''source'', ''deck_id'',
          ''kernel_count'', ''compression_ratio'']),
      (''emotional_arc'', ''Emotional Arc'', [''emotional_arc'']),
      (''heat_signature'', ''Heat Signature'', [''heat_signature'']),
      (''language_motifs'', ''Language & Motifs'', [''language_patterns'', ''motifs'']),
      (''physical_anchors'', ''Physical Anchors'', [''physical_anchors'']),
      (''visual_description'', ''Visual Description'', [''visual_description'']),
      (''dynamics'', ''Relationship Dynamics'',
         [''consent_pattern'', ''power_dynamic'', ''aftercare'']),
      (''core_truth'', ''Core Truth & Boundaries'',
         [''pattern_boundaries'', ''what_makes_it_work'', ''core_truth'', ''why_it_matters'']),
      (''cubic_attractor'', ''Cubic Attractor (Identity)'', [''cubic_attractor'']),
      (''export'', ''Export Notes'',
         [''replication_notes'', ''export_notes'', ''closing_image'', ''heat_at_close'',
          ''sigil''])]"

text \<open>A rule is triggered when the record has one of its fields.\<close>

definition triggered :: "pydict \<Rightarrow> string \<times> string \<times> string list \<Rightarrow> bool" where
  "triggered kern rule = (\<exists>k\<in>set (snd (snd rule)). k \<in> fst ` set kern)"

definition fired_tags :: "pydict \<Rightarrow> string list" where
  "fired_tags kern = map fst (filter (triggered kern) rule_table)"

text \<open>
  What a section of a rule carries for a record: the rule's tag, a title and the record's id
  (or \<^verbatim>\<open>"unknown"\<close>). The title is the rule's label, except in the header section, whose
  title is the record's own \<^verbatim>\<open>title\<close> when it has one.
\<close>

definition is_section :: "pydict \<Rightarrow> string \<times> string \<times> string list \<Rightarrow> json \<Rightarrow> bool" where
  "is_section kern rule s =
     (field s ''section'' = Some (JStr (fst rule)) \<and>
      field s ''title'' =
        Some (if fst rule = ''header'' then dict_get kern ''title'' (JStr (fst (snd rule)))
              else JStr (fst (snd rule))) \<and>
      field s ''id'' = Some (dict_get kern ''id'' (JStr ''unknown'')))"



text \<open>
  The ways a parse fails, on the decoded document: a shape that is none of the three
  recognised ones, and a document with no records.
\<close>

definition unrecognized_shape :: "json \<Rightarrow> bool" where
  "unrecognized_shape data =
     (case data of
        JObj d \<Rightarrow>
          ''kernels'' \<notin> fst ` set d \<and>
          \<not> (''id'' \<in> fst ` set d \<and>
             (''emotional_arc'' \<in> fst ` set d \<or> ''heat_signature'' \<in> fst ` set d \<or>
              ''cubic_attractor'' \<in> fst ` set d))
      | JArr xs \<Rightarrow> False
      | _ \<Rightarrow> True)"

definition zero_records :: "json \<Rightarrow> bool" where
  "zero_records data =
     (case data of
        JObj d \<Rightarrow> (case map_of d ''kernels'' of Some ks \<Rightarrow> \<not> truthy ks | None \<Rightarrow> False)
      | JArr xs \<Rightarrow> xs = []
      | _ \<Rightarrow> False)"

text \<open>
  On the store: \<open>kept h0 sections h\<close> says that \<open>h\<close> still begins with the store \<open>h0\<close> of the
  call, unchanged, and that \<open>sections\<close> is a list allocated after it.
\<close>

definition kept :: "heap \<Rightarrow> addr \<Rightarrow> heap \<Rightarrow> bool" where
  "kept h0 sections h \<longleftrightarrow>
     length h0 \<le> sections \<and> sections < length h \<and> take (length h0) h = h0 \<and>
     list_at h sections \<noteq> None"

text \<open>The items of a dict of the store against the items of a dict of values.\<close>

definition items_rel :: "addr set \<Rightarrow> heap \<Rightarrow> (string \<times> hval) list \<Rightarrow> pydict \<Rightarrow> bool" where
  "items_rel F h d kd \<longleftrightarrow>
     list_all2 (\<lambda>p q. fst p = fst q \<and> denotes_in F h (snd p) (snd q)) d kd"

text \<open>
  The store \<open>h\<close> in the middle of a call against the list \<open>secs\<close> of sections on values: the
  store of the call is kept, and the list at \<open>sections\<close> denotes \<open>secs\<close> through the objects of
  \<open>F\<close>, which are the objects of the call's store and the finished objects of the call.
\<close>

definition refines :: "heap \<Rightarrow> addr \<Rightarrow> addr set \<Rightarrow> heap \<Rightarrow> json list \<Rightarrow> bool" where
  "refines h0 sections F h secs \<longleftrightarrow>
     kept h0 sections h \<and> {..<length h0} \<subseteq> F \<and> sections \<notin> F \<and> (\<forall>a\<in>F. a < length h) \<and>
     (\<exists>xs. list_at h sections = Some xs \<and> list_all2 (denotes_in F h) xs secs)"

subsection \<open>Examples\<close>

text \<open>The records of the scenarios, decoded.\<close>

definition record_k1 :: pydict where
  "record_k1 = [(''id'', JStr ''k1''), (''heat_signature'', JObj [(''trust'', JFloat (1/2))])]"

definition record_solo :: pydict where
  "record_solo = [(''id'', JStr ''k1''), (''title'', JStr ''Solo'')]"

definition record_titled :: pydict where
  "record_titled =
     [(''id'', JStr ''k1''), (''title'', JStr ''Solo''),
      (''heat_signature'', JObj [(''trust'', JFloat (1/2))])]"

definition record_sigil :: pydict where
  "record_sigil =
     [(''sigil'', JStr ''x''), (''heat_signature'', JObj [(''trust'', JFloat (1/2))]),
      (''id'', JStr ''k1'')]"

text \<open>Input texts, and the answers of \<^verbatim>\<open>json.loads\<close> on them (the examples use no other text).\<close>

definition solo_text :: string where
  \<open>solo_text = ''{"id":"k1","title":"Solo"}''\<close>

definition deck_text :: string where
  \<open>deck_text = ''{"kernels":[{"id":"a"},{"id":"b"}]}''\<close>

definition example_loads :: "string \<Rightarrow> loads_result" where
  "example_loads t =
     (if t = solo_text then Decoded (JObj record_solo)
      else if t = deck_text then
        Decoded (JObj [(''kernels'', JArr [JObj [(''id'', JStr ''a'')], JObj [(''id'', JStr ''b'')]])])
      else if t = ''[]'' then Decoded (JArr [])
      else if t = ''7'' then Decoded (JInt 7)
      else JSONDecodeError
        ''Expecting property name enclosed in double quotes: line 1 column 2 (char 1)'')"

text \<open>
  A text of 1200 opening brackets. It is malformed, and \<^verbatim>\<open>json.loads\<close> does not get as far as
  saying so: the nesting exceeds the recursion limit and it raises \<^verbatim>\<open>RecursionError\<close>.
\<close>

definition deep_text :: string where
  "deep_text = replicate 1200 (CHR ''['')"

definition nested_loads :: "string \<Rightarrow> loads_result" where
  "nested_loads t = (if t = deep_text then OtherError else example_loads t)"

text \<open>The window after CHUNK on \<open>deck_text\<close>, and after one and two sequential copies.\<close>

definition deck_window :: "string \<Rightarrow> kernel_chunker" where
  "deck_window clip =
     \<lparr>drop_zone = deck_text,
      status_label = ''Found 2 kernels - click COPY on each or use sequential copy'',
      chunks = [JObj [(''id'', JStr ''a'')], JObj [(''id'', JStr ''b'')]],
      current_chunk_index = 0,
      cards = [\<lparr>chunk_num = 1, kernel_data = JObj [(''id'', JStr ''a'')], is_copied = False\<rparr>,
               \<lparr>chunk_num = 2, kernel_data = JObj [(''id'', JStr ''b'')], is_copied = False\<rparr>],
      copy_all_btn_enabled = True, copy_all_btn_text = ''COPY NEXT (1/2)'',
      clipboard = clip\<rparr>"


definition deck_copied_2 :: "(json \<Rightarrow> string) \<Rightarrow> string \<Rightarrow> kernel_chunker" where
  "deck_copied_2 dumps clip =
     (deck_window clip)
       \<lparr>current_chunk_index := 2,
        cards := [\<lparr>chunk_num = 1, kernel_data = JObj [(''id'', JStr ''a'')], is_copied = True\<rparr>,
                  \<lparr>chunk_num = 2, kernel_data = JObj [(''id'', JStr ''b'')], is_copied = True\<rparr>],
        copy_all_btn_text := ''START OVER'',
        clipboard := dumps (JObj [(''id'', JStr ''b'')])\<rparr>"

text \<open>A store that holds the record \<open>record_solo\<close> at address 0.\<close>

definition solo_store :: heap where
  "solo_store = [HDict [(''id'', HStr ''k1''), (''title'', HStr ''Solo'')]]"

section \<open>Dicts\<close>

lemma map_of_dict_display: "map_of (dict_display items) = map_of (rev items)"
  unfolding dict_display_def
  by (induction items rule: rev_induct) (auto simp: update_conv')

lemma map_of_foldl_copy_key:
  "map_of (foldl (copy_key kern) d keys) k =
     (if k \<in> set keys \<and> map_of kern k \<noteq> None then map_of kern k else map_of d k)"
  by (induction keys arbitrary: d) (auto simp: copy_key_def update_conv' split: option.splits)

lemma map_of_copy_keys:
  "map_of (copy_keys kern keys) k = (if k \<in> set keys then map_of kern k else None)"
  by (auto simp: copy_keys_def map_of_foldl_copy_key)

lemma copy_keys_empty_iff:
  "copy_keys kern keys = [] \<longleftrightarrow> (\<forall>k\<in>set keys. map_of kern k = None)"
proof -
  have "copy_keys kern keys = [] \<longleftrightarrow> map_of (copy_keys kern keys) = Map.empty"
    by simp
  also have "\<dots> \<longleftrightarrow> (\<forall>k. map_of (copy_keys kern keys) k = None)"
    by (simp add: fun_eq_iff)
  also have "\<dots> \<longleftrightarrow> (\<forall>k\<in>set keys. map_of kern k = None)"
    by (auto simp: map_of_copy_keys)
  finally show ?thesis .
qed

lemma in_keys_iff: "k \<in> fst ` set kern \<longleftrightarrow> map_of kern k \<noteq> None"
  by (simp add: map_of_eq_None_iff)

lemma copy_keys_nonempty_iff:
  "copy_keys kern keys \<noteq> [] \<longleftrightarrow> (\<exists>k\<in>set keys. k \<in> fst ` set kern)"
  by (auto simp: copy_keys_empty_iff map_of_eq_None_iff)

lemma keys_copy_keys: "fst ` set (copy_keys kern keys) \<subseteq> set keys"
proof
  fix k assume "k \<in> fst ` set (copy_keys kern keys)"
  then have "map_of (copy_keys kern keys) k \<noteq> None"
    by (simp add: map_of_eq_None_iff)
  then show "k \<in> set keys"
    by (auto simp: map_of_copy_keys split: if_splits)
qed

lemma lang_motifs_eq:
  "copy_key kern (copy_key kern [] ''language_patterns'') ''motifs''
     = copy_keys kern [''language_patterns'', ''motifs'']"
  by (simp add: copy_keys_def)

text \<open>The entries written first in a display are read back whatever is spread after them.\<close>

lemma field_display:
  assumes "k \<notin> fst ` set extra"
  shows "field (JObj (dict_display (base @ extra))) k = map_of (rev base) k"
proof -
  have "map_of (rev extra) k = None"
    using assms by (simp add: map_of_eq_None_iff)
  then show ?thesis
    by (simp add: field_def map_of_dict_display map_add_def)
qed

section \<open>The ten rules, one by one\<close>

text \<open>
  Each block appends to \<^verbatim>\<open>sections\<close> and to nothing else, and what it appends is the section
  of its rule when the rule is triggered, and nothing otherwise.
\<close>

lemma rule_header_app: "rule_header kern sections = sections @ rule_header kern []"
  by (simp add: rule_header_def Let_def)

lemma rule_header_sections:
  "list_all2 (is_section kern)
     (filter (triggered kern)
        [(''header'', ''Header'',
          [''id'', ''title'', ''version'', ''extraction_date'', ''source'', ''deck_id'',
           ''kernel_count'', ''compression_ratio''])])
     (rule_header kern [])"
  by (simp add: rule_header_def Let_def triggered_def copy_keys_nonempty_iff is_section_def
      field_display [where extra = "[]", simplified])

lemma rule_emotional_arc_app: "rule_emotional_arc kern sections = sections @ rule_emotional_arc kern []"
  by (simp add: rule_emotional_arc_def split: option.splits)

lemma rule_emotional_arc_sections:
  "list_all2 (is_section kern)
     (filter (triggered kern) [(''emotional_arc'', ''Emotional Arc'', [''emotional_arc''])])
     (rule_emotional_arc kern [])"
  by (simp add: rule_emotional_arc_def triggered_def in_keys_iff is_section_def
      field_display [where extra = "[]", simplified] split: option.splits)

lemma rule_heat_signature_app: "rule_heat_signature kern sections = sections @ rule_heat_signature kern []"
  by (simp add: rule_heat_signature_def split: option.splits)

lemma rule_heat_signature_sections:
  "list_all2 (is_section kern)
     (filter (triggered kern) [(''heat_signature'', ''Heat Signature'', [''heat_signature''])])
     (rule_heat_signature kern [])"
  by (simp add: rule_heat_signature_def triggered_def in_keys_iff is_section_def
      field_display [where extra = "[]", simplified] split: option.splits)

lemma rule_physical_anchors_app: "rule_physical_anchors kern sections = sections @ rule_physical_anchors kern []"
  by (simp add: rule_physical_anchors_def split: option.splits)

lemma rule_physical_anchors_sections:
  "list_all2 (is_section kern)
     (filter (triggered kern) [(''physical_anchors'', ''Physical Anchors'', [''physical_anchors''])])
     (rule_physical_anchors kern [])"
  by (simp add: rule_physical_anchors_def triggered_def in_keys_iff is_section_def
      field_display [where extra = "[]", simplified] split: option.splits)

lemma rule_visual_description_app: "rule_visual_description kern sections = sections @ rule_visual_description kern []"
  by (simp add: rule_visual_description_def split: option.splits)

lemma rule_visual_description_sections:
  "list_all2 (is_section kern)
     (filter (triggered kern) [(''visual_description'', ''Visual Description'', [''visual_description''])])
     (rule_visual_description kern [])"
  by (simp add: rule_visual_description_def triggered_def in_keys_iff is_section_def
      field_display [where extra = "[]", simplified] split: option.splits)

lemma rule_cubic_attractor_app: "rule_cubic_attractor kern sections = sections @ rule_cubic_attractor kern []"
  by (simp add: rule_cubic_attractor_def split: option.splits)

lemma rule_cubic_attractor_sections:
  "list_all2 (is_section kern)
     (filter (triggered kern) [(''cubic_attractor'', ''Cubic Attractor (Identity)'', [''cubic_attractor''])])
     (rule_cubic_attractor kern [])"
  by (simp add: rule_cubic_attractor_def triggered_def in_keys_iff is_section_def
      field_display [where extra = "[]", simplified] split: option.splits)

lemma spread_is_section:
  assumes "set keys \<inter> {''section'', ''title'', ''id''} = {}" and "tag \<noteq> ''header''"
  shows "is_section kern (tag, label, keys)
           (JObj (dict_display
              ([(''section'', JStr tag), (''title'', JStr label),
                (''id'', dict_get kern ''id'' (JStr ''unknown''))] @ copy_keys kern keys)))"
proof -
  have "k \<notin> fst ` set (copy_keys kern keys)" if "k \<in> {''section'', ''title'', ''id''}" for k
    using that assms(1) keys_copy_keys [of kern keys] by blast
  then have "field (JObj (dict_display
               ([(''section'', JStr tag), (''title'', JStr label),
                 (''id'', dict_get kern ''id'' (JStr ''unknown''))] @ copy_keys kern keys))) k
             = map_of (rev [(''section'', JStr tag), (''title'', JStr label),
                 (''id'', dict_get kern ''id'' (JStr ''unknown''))]) k"
    if "k \<in> {''section'', ''title'', ''id''}" for k
    using that by (intro field_display) blast
  from this [of "''section''"] this [of "''title''"] this [of "''id''"] show ?thesis
    using assms(2) by (simp add: is_section_def)
qed

lemma rule_language_motifs_app:
  "rule_language_motifs kern sections = sections @ rule_language_motifs kern []"
  by (simp add: rule_language_motifs_def Let_def)

lemma rule_language_motifs_sections:
  "list_all2 (is_section kern)
     (filter (triggered kern)
        [(''language_motifs'', ''Language & Motifs'', [''language_patterns'', ''motifs''])])
     (rule_language_motifs kern [])"
proof -
  have "is_section kern
          (''language_motifs'', ''Language & Motifs'', [''language_patterns'', ''motifs''])
          (JObj (dict_display
             ([(''section'', JStr ''language_motifs''), (''title'', JStr ''Language & Motifs''),
               (''id'', dict_get kern ''id'' (JStr ''unknown''))]
              @ copy_keys kern [''language_patterns'', ''motifs''])))"
    by (rule spread_is_section) simp_all
  then show ?thesis
    unfolding rule_language_motifs_def Let_def lang_motifs_eq
    by (simp add: triggered_def copy_keys_nonempty_iff)
qed

lemma rule_dynamics_app: "rule_dynamics kern sections = sections @ rule_dynamics kern []"
  by (simp add: rule_dynamics_def Let_def)

lemma rule_dynamics_sections:
  "list_all2 (is_section kern)
     (filter (triggered kern)
        [(''dynamics'', ''Relationship Dynamics'',
          [''consent_pattern'', ''power_dynamic'', ''aftercare''])])
     (rule_dynamics kern [])"
proof -
  have "is_section kern
          (''dynamics'', ''Relationship Dynamics'',
           [''consent_pattern'', ''power_dynamic'', ''aftercare''])
          (JObj (dict_display
             ([(''section'', JStr ''dynamics''), (''title'', JStr ''Relationship Dynamics''),
               (''id'', dict_get kern ''id'' (JStr ''unknown''))]
              @ copy_keys kern
                 [''consent_pattern'', ''power_dynamic'', ''aftercare''])))"
    by (rule spread_is_section) simp_all
  then show ?thesis
    unfolding rule_dynamics_def Let_def
    by (simp add: triggered_def copy_keys_nonempty_iff)
qed

lemma rule_core_truth_app: "rule_core_truth kern sections = sections @ rule_core_truth kern []"
  by (simp add: rule_core_truth_def Let_def)

lemma rule_core_truth_sections:
  "list_all2 (is_section kern)
     (filter (triggered kern)
        [(''core_truth'', ''Core Truth & Boundaries'',
          [''pattern_boundaries'', ''what_makes_it_work'', ''core_truth'',
           ''why_it_matters''])])
     (rule_core_truth kern [])"
proof -
  have "is_section kern
          (''core_truth'', ''Core Truth & Boundaries'',
           [''pattern_boundaries'', ''what_makes_it_work'', ''core_truth'',
           ''why_it_matters''])
          (JObj (dict_display
             ([(''section'', JStr ''core_truth''), (''title'', JStr ''Core Truth & Boundaries''),
               (''id'', dict_get kern ''id'' (JStr ''unknown''))]
              @ copy_keys kern
                 [''pattern_boundaries'', ''what_makes_it_work'', ''core_truth'',
           ''why_it_matters''])))"
    by (rule spread_is_section) simp_all
  then show ?thesis
    unfolding rule_core_truth_def Let_def
    by (simp add: triggered_def copy_keys_nonempty_iff)
qed

lemma rule_export_app: "rule_export kern sections = sections @ rule_export kern []"
  by (simp add: rule_export_def Let_def)

lemma rule_export_sections:
  "list_all2 (is_section kern)
     (filter (triggered kern)
        [(''export'', ''Export Notes'',
          [''replication_notes'', ''export_notes'', ''closing_image'', ''heat_at_close'',
           ''sigil''])])
     (rule_export kern [])"
proof -
  have "is_section kern
          (''export'', ''Export Notes'',
           [''replication_notes'', ''export_notes'', ''closing_image'', ''heat_at_close'',
           ''sigil''])
          (JObj (dict_display
             ([(''section'', JStr ''export''), (''title'', JStr ''Export Notes''),
               (''id'', dict_get kern ''id'' (JStr ''unknown''))]
              @ copy_keys kern
                 [''replication_notes'', ''export_notes'', ''closing_image'', ''heat_at_close'',
           ''sigil''])))"
    by (rule spread_is_section) simp_all
  then show ?thesis
    unfolding rule_export_def Let_def
    by (simp add: triggered_def copy_keys_nonempty_iff)
qed

section \<open>The section list\<close>

lemma extract_sections_app:
  "extract_sections kern =
     rule_header kern [] @ rule_emotional_arc kern [] @ rule_heat_signature kern []
     @ rule_language_motifs kern [] @ rule_physical_anchors kern []
     @ rule_visual_description kern [] @ rule_dynamics kern [] @ rule_core_truth kern []
     @ rule_cubic_attractor kern [] @ rule_export kern []"
  unfolding extract_sections_def Let_def
  apply (subst rule_export_app)
  apply (subst rule_cubic_attractor_app)
  apply (subst rule_core_truth_app)
  apply (subst rule_dynamics_app)
  apply (subst rule_visual_description_app)
  apply (subst rule_physical_anchors_app)
  apply (subst rule_language_motifs_app)
  apply (subst rule_heat_signature_app)
  apply (subst rule_emotional_arc_app)
  apply simp
  done

lemma filter_Cons_app: "filter P (x # xs) = filter P [x] @ filter P xs"
  by simp

text \<open>
  The section list is the list of the triggered rules of the table, each with its section.
\<close>

lemma sections_of_rules:
  "list_all2 (is_section kern) (filter (triggered kern) rule_table) (extract_sections kern)"
  unfolding extract_sections_app rule_table_def
  apply (subst filter_Cons_app, rule list_all2_appendI, rule rule_header_sections)
  apply (subst filter_Cons_app, rule list_all2_appendI, rule rule_emotional_arc_sections)
  apply (subst filter_Cons_app, rule list_all2_appendI, rule rule_heat_signature_sections)
  apply (subst filter_Cons_app, rule list_all2_appendI, rule rule_language_motifs_sections)
  apply (subst filter_Cons_app, rule list_all2_appendI, rule rule_physical_anchors_sections)
  apply (subst filter_Cons_app, rule list_all2_appendI, rule rule_visual_description_sections)
  apply (subst filter_Cons_app, rule list_all2_appendI, rule rule_dynamics_sections)
  apply (subst filter_Cons_app, rule list_all2_appendI, rule rule_core_truth_sections)
  apply (subst filter_Cons_app, rule list_all2_appendI, rule rule_cubic_attractor_sections)
  apply (rule rule_export_sections)
  done

lemmas segmenter_defs =
  chunk_single_kernel_def extract_sections_def rule_header_def rule_emotional_arc_def
  rule_heat_signature_def rule_language_motifs_def rule_physical_anchors_def
  rule_visual_description_def rule_dynamics_def rule_core_truth_def rule_cubic_attractor_def
  rule_export_def copy_keys_def copy_key_def dict_display_def dict_get_def

lemma length_extract_sections:
  "length (extract_sections kern) = length (filter (triggered kern) rule_table)"
  using sections_of_rules [of kern] by (simp add: list_all2_lengthD)

lemma tags_of_extract_sections:
  "tags_of (extract_sections kern) = map (\<lambda>t. Some (JStr t)) (fired_tags kern)"
proof -
  have "list_all2 (\<lambda>rule s. field s ''section'' = Some (JStr (fst rule)))
          (filter (triggered kern) rule_table) (extract_sections kern)"
    by (rule list_all2_mono [OF sections_of_rules]) (simp add: is_section_def)
  then have "map (\<lambda>s. field s ''section'') (extract_sections kern)
               = map (\<lambda>rule. Some (JStr (fst rule))) (filter (triggered kern) rule_table)"
    by (induction rule: list_all2_induct) simp_all
  then show ?thesis
    by (simp add: tags_of_def fired_tags_def comp_def)
qed

lemma section_of_some_rule:
  assumes "s \<in> set (extract_sections kern)"
  shows "\<exists>rule\<in>set rule_table. triggered kern rule \<and> is_section kern rule s"
proof -
  from assms obtain i where i: "i < length (extract_sections kern)"
      and s: "s = extract_sections kern ! i"
    by (auto simp: in_set_conv_nth)
  let ?fired = "filter (triggered kern) rule_table"
  have len: "i < length ?fired"
    using i by (simp add: length_extract_sections)
  have "is_section kern (?fired ! i) s"
    using sections_of_rules [of kern] i s by (simp add: list_all2_nthD2)
  moreover have "?fired ! i \<in> set ?fired"
    using len by (rule nth_mem)
  then have "?fired ! i \<in> set rule_table" and "triggered kern (?fired ! i)"
    by simp_all
  ultimately show ?thesis
    by blast
qed

lemma distinct_rule_tags: "distinct (map fst rule_table)"
  by (simp add: rule_table_def)

lemma distinct_fired_tags: "distinct (fired_tags kern)"
  unfolding fired_tags_def by (rule distinct_map_filter) (rule distinct_rule_tags)

lemma tags_key_set:
  assumes "fst ` set kern' = fst ` set kern"
  shows "fired_tags kern' = fired_tags kern"
proof -
  have "triggered kern' = triggered kern"
    unfolding triggered_def assms ..
  then show ?thesis
    by (simp add: fired_tags_def)
qed

text \<open>The example records, run.\<close>

lemma sections_record_k1:
  "extract_sections record_k1 =
     [JObj [(''section'', JStr ''header''), (''title'', JStr ''Header''), (''id'', JStr ''k1''),
            (''data'', JObj [(''id'', JStr ''k1'')])],
      JObj [(''section'', JStr ''heat_signature''), (''title'', JStr ''Heat Signature''),
            (''id'', JStr ''k1''), (''heat_signature'', JObj [(''trust'', JFloat (1/2))])]]"
  by (simp add: record_k1_def segmenter_defs)

lemma sections_record_solo:
  "extract_sections record_solo =
     [JObj [(''section'', JStr ''header''), (''title'', JStr ''Solo''), (''id'', JStr ''k1''),
            (''data'', JObj [(''id'', JStr ''k1''), (''title'', JStr ''Solo'')])]]"
  by (simp add: record_solo_def segmenter_defs)

lemma sections_record_titled:
  "extract_sections record_titled =
     [JObj [(''section'', JStr ''header''), (''title'', JStr ''Solo''), (''id'', JStr ''k1''),
            (''data'', JObj [(''id'', JStr ''k1''), (''title'', JStr ''Solo'')])],
      JObj [(''section'', JStr ''heat_signature''), (''title'', JStr ''Heat Signature''),
            (''id'', JStr ''k1''), (''heat_signature'', JObj [(''trust'', JFloat (1/2))])]]"
  by (simp add: record_titled_def segmenter_defs)

lemma sections_record_sigil:
  "extract_sections record_sigil =
     [JObj [(''section'', JStr ''header''), (''title'', JStr ''Header''), (''id'', JStr ''k1''),
            (''data'', JObj [(''id'', JStr ''k1'')])],
      JObj [(''section'', JStr ''heat_signature''), (''title'', JStr ''Heat Signature''),
            (''id'', JStr ''k1''), (''heat_signature'', JObj [(''trust'', JFloat (1/2))])],
      JObj [(''section'', JStr ''export''), (''title'', JStr ''Export Notes''),
            (''id'', JStr ''k1''), (''sigil'', JStr ''x'')]]"
  by (simp add: record_sigil_def segmenter_defs)

section \<open>Properties of the segmenter\<close>

text \<open>
  Claim C1, as amended. When segmentation applies (more than one section is produced),
  every section that \<^verbatim>\<open>chunk_single_kernel\<close> returns belongs to a rule of the table that the
  record triggers, and carries under \<^verbatim>\<open>section\<close> the tag of the rule, under \<^verbatim>\<open>id\<close> the record's
  \<^verbatim>\<open>id\<close> value, or the string \<^verbatim>\<open>"unknown"\<close> when the record has no \<^verbatim>\<open>id\<close>, and under
  \<^verbatim>\<open>title\<close> the fixed label of the rule, except in the header section: there the title is the
  record's own \<^verbatim>\<open>title\<close> value when the record has one, and \<^verbatim>\<open>"Header"\<close> otherwise.
\<close>

theorem section_fields:
  assumes "1 < length (extract_sections kern)" and "s \<in> set (chunk_single_kernel kern)"
  shows "\<exists>rule\<in>set rule_table.
           triggered kern rule \<and>
           field s ''section'' = Some (JStr (fst rule)) \<and>
           field s ''title'' =
             Some (if fst rule = ''header'' then dict_get kern ''title'' (JStr ''Header'')
                   else JStr (fst (snd rule))) \<and>
           field s ''id'' = Some (dict_get kern ''id'' (JStr ''unknown''))"
proof -
  have "s \<in> set (extract_sections kern)"
    using assms by (simp add: chunk_single_kernel_def Let_def)
  then obtain rule where rule: "rule \<in> set rule_table" "triggered kern rule"
      "is_section kern rule s"
    using section_of_some_rule by blast
  have "fst (snd rule) = ''Header''" if "fst rule = ''header''"
    using rule(1) that by (auto simp: rule_table_def)
  then show ?thesis
    using rule by (auto simp: is_section_def)
qed

text \<open>
  The theorem at the record \<open>record_titled\<close>, whose two sections are a header titled
  \<^verbatim>\<open>"Solo"\<close> and a heat signature with the fixed label.
\<close>

theorem section_fields_witness:
  "1 < length (extract_sections record_titled) \<and>
   (\<exists>rule\<in>set rule_table.
      triggered record_titled rule \<and>
      field (chunk_single_kernel record_titled ! 1) ''section'' = Some (JStr (fst rule)) \<and>
      field (chunk_single_kernel record_titled ! 1) ''title'' =
        Some (if fst rule = ''header'' then dict_get record_titled ''title'' (JStr ''Header'')
              else JStr (fst (snd rule))) \<and>
      field (chunk_single_kernel record_titled ! 1) ''id'' =
        Some (dict_get record_titled ''id'' (JStr ''unknown'')))"
proof -
  have len: "1 < length (extract_sections record_titled)"
    by (simp add: sections_record_titled)
  have "chunk_single_kernel record_titled ! 1 \<in> set (chunk_single_kernel record_titled)"
    by (simp add: chunk_single_kernel_def Let_def sections_record_titled)
  from section_fields [OF len this] len show ?thesis
    by blast
qed

text \<open>
  Claim C1 as stated fails: the title of the header section is not one label for every
  record. The records \<open>record_titled\<close> and \<open>record_k1\<close> are both segmented into two sections,
  the first of them the header; its title is \<^verbatim>\<open>"Solo"\<close> for the one and \<^verbatim>\<open>"Header"\<close> for the
  other.
\<close>

theorem header_title_not_fixed:
  "length (chunk_single_kernel record_titled) = 2 \<and>
   field (chunk_single_kernel record_titled ! 0) ''section'' = Some (JStr ''header'') \<and>
   field (chunk_single_kernel record_titled ! 0) ''title'' = Some (JStr ''Solo'') \<and>
   length (chunk_single_kernel record_k1) = 2 \<and>
   field (chunk_single_kernel record_k1 ! 0) ''section'' = Some (JStr ''header'') \<and>
   field (chunk_single_kernel record_k1 ! 0) ''title'' = Some (JStr ''Header'')"
  by (simp add: chunk_single_kernel_def Let_def sections_record_titled sections_record_k1
      field_def)

text \<open>
  Claim C2. When the ten rules produce at most one section, \<^verbatim>\<open>chunk_single_kernel\<close> returns
  the list whose only element is the record itself, unmodified; otherwise it returns the
  section list, which then has at least two elements. The number of sections produced is the
  number of rules the record triggers, so the fallback is taken exactly by the records with
  fewer than two recognised groups of fields.
\<close>

theorem fallback_policy:
  "(length (extract_sections kern) \<le> 1 \<longrightarrow> chunk_single_kernel kern = [JObj kern])
   \<and> (1 < length (extract_sections kern) \<longrightarrow>
        chunk_single_kernel kern = extract_sections kern
        \<and> 2 \<le> length (chunk_single_kernel kern))
   \<and> length (extract_sections kern) = length (filter (triggered kern) rule_table)"
proof -
  have fallback: "chunk_single_kernel kern = [JObj kern]"
    if "length (extract_sections kern) \<le> 1"
    using that by (simp add: chunk_single_kernel_def Let_def)
  have segmented: "chunk_single_kernel kern = extract_sections kern
      \<and> 2 \<le> length (chunk_single_kernel kern)"
    if "1 < length (extract_sections kern)"
    using that by (simp add: chunk_single_kernel_def Let_def)
  from fallback segmented length_extract_sections [of kern] show ?thesis
    by blast
qed

text \<open>
  The theorem at \<open>record_solo\<close>, which triggers the header rule alone and comes back as it
  is, and at \<open>record_k1\<close>, which is segmented.
\<close>

theorem fallback_policy_witness:
  "length (extract_sections record_solo) \<le> 1 \<and>
   chunk_single_kernel record_solo = [JObj record_solo] \<and>
   1 < length (extract_sections record_k1) \<and>
   chunk_single_kernel record_k1 = extract_sections record_k1 \<and>
   2 \<le> length (chunk_single_kernel record_k1)"
proof -
  have solo: "length (extract_sections record_solo) \<le> 1"
    by (simp add: sections_record_solo)
  have k1: "1 < length (extract_sections record_k1)"
    by (simp add: sections_record_k1)
  from fallback_policy [of record_solo] solo
  have "chunk_single_kernel record_solo = [JObj record_solo]"
    by blast
  moreover from fallback_policy [of record_k1] k1
  have "chunk_single_kernel record_k1 = extract_sections record_k1
          \<and> 2 \<le> length (chunk_single_kernel record_k1)"
    by blast
  ultimately show ?thesis
    using solo k1 by blast
qed

text \<open>
  Claim C3. The record \<^verbatim>\<open>{"id":"k1","heat_signature":{"trust":0.5}}\<close> is segmented into
  exactly two sections, in this order: a header whose \<^verbatim>\<open>data\<close> is \<^verbatim>\<open>{"id":"k1"}\<close>, and a heat
  signature whose \<^verbatim>\<open>heat_signature\<close> is \<^verbatim>\<open>{"trust":0.5}\<close>. More generally, a record that has
  \<^verbatim>\<open>id\<close> and none of the other seven header fields gets a header section, the first of its
  section list, whose \<^verbatim>\<open>data\<close> holds the \<^verbatim>\<open>id\<close> entry and nothing else.
\<close>

theorem id_triggers_header:
  "chunk_single_kernel
     [(''id'', JStr ''k1''), (''heat_signature'', JObj [(''trust'', JFloat (1/2))])]
     = [JObj [(''section'', JStr ''header''), (''title'', JStr ''Header''), (''id'', JStr ''k1''),
              (''data'', JObj [(''id'', JStr ''k1'')])],
        JObj [(''section'', JStr ''heat_signature''), (''title'', JStr ''Heat Signature''),
              (''id'', JStr ''k1''), (''heat_signature'', JObj [(''trust'', JFloat (1/2))])]]
   \<and> (map_of kern ''id'' = Some v \<and>
        (\<forall>k\<in>set [''title'', ''version'', ''extraction_date'', ''source'', ''deck_id'',
                  ''kernel_count'', ''compression_ratio'']. k \<notin> fst ` set kern)
        \<longrightarrow> (\<exists>rest. extract_sections kern =
               JObj [(''section'', JStr ''header''), (''title'', JStr ''Header''), (''id'', v),
                     (''data'', JObj [(''id'', v)])] # rest))"
proof -
  have "chunk_single_kernel record_k1 = extract_sections record_k1"
    by (simp add: chunk_single_kernel_def Let_def sections_record_k1)
  then have scenario: "chunk_single_kernel
     [(''id'', JStr ''k1''), (''heat_signature'', JObj [(''trust'', JFloat (1/2))])]
     = [JObj [(''section'', JStr ''header''), (''title'', JStr ''Header''), (''id'', JStr ''k1''),
              (''data'', JObj [(''id'', JStr ''k1'')])],
        JObj [(''section'', JStr ''heat_signature''), (''title'', JStr ''Heat Signature''),
              (''id'', JStr ''k1''), (''heat_signature'', JObj [(''trust'', JFloat (1/2))])]]"
    by (simp add: sections_record_k1) (simp add: record_k1_def)
  have general: "\<exists>rest. extract_sections kern =
               JObj [(''section'', JStr ''header''), (''title'', JStr ''Header''), (''id'', v),
                     (''data'', JObj [(''id'', v)])] # rest"
    if id: "map_of kern ''id'' = Some v"
      and others: "\<forall>k\<in>set [''title'', ''version'', ''extraction_date'', ''source'', ''deck_id'',
                  ''kernel_count'', ''compression_ratio'']. k \<notin> fst ` set kern"
  proof -
    have none: "map_of kern ''title'' = None" "map_of kern ''version'' = None"
        "map_of kern ''extraction_date'' = None" "map_of kern ''source'' = None"
        "map_of kern ''deck_id'' = None" "map_of kern ''kernel_count'' = None"
        "map_of kern ''compression_ratio'' = None"
      using others by (simp_all add: map_of_eq_None_iff)
    have "rule_header kern [] =
            [JObj [(''section'', JStr ''header''), (''title'', JStr ''Header''), (''id'', v),
                   (''data'', JObj [(''id'', v)])]]"
      using id none
      by (simp add: rule_header_def copy_keys_def copy_key_def dict_display_def dict_get_def)
    then show ?thesis
      by (simp add: extract_sections_app)
  qed
  from scenario general show ?thesis
    by blast
qed

text \<open>
  The general part at a record with \<^verbatim>\<open>motifs\<close> and a numeric \<^verbatim>\<open>id\<close>: the header comes first
  and holds the \<^verbatim>\<open>id\<close> alone.
\<close>

theorem id_triggers_header_witness:
  "map_of [(''motifs'', JArr []), (''id'', JInt 7)] ''id'' = Some (JInt 7) \<and>
   (\<exists>rest. extract_sections [(''motifs'', JArr []), (''id'', JInt 7)] =
      JObj [(''section'', JStr ''header''), (''title'', JStr ''Header''), (''id'', JInt 7),
            (''data'', JObj [(''id'', JInt 7)])] # rest)"
  using id_triggers_header [of "[(''motifs'', JArr []), (''id'', JInt 7)]" "JInt 7"]
  by simp

text \<open>
  Claim C4. The tags of the section list are the tags of the rules the record triggers, in
  the order of the table: header, emotional_arc, heat_signature, language_motifs,
  physical_anchors, visual_description, dynamics, core_truth, cubic_attractor, export. So a
  rule none of whose fields the record has contributes no section, and the sequence of tags
  depends on the set of the record's keys only, not on their order. When segmentation
  applies, this is the sequence of tags of what \<^verbatim>\<open>chunk_single_kernel\<close> returns.
\<close>

theorem section_order_fixed:
  "map fst rule_table =
     [''header'', ''emotional_arc'', ''heat_signature'', ''language_motifs'',
      ''physical_anchors'', ''visual_description'', ''dynamics'', ''core_truth'',
      ''cubic_attractor'', ''export'']
   \<and> tags_of (extract_sections kern) = map (\<lambda>t. Some (JStr t)) (fired_tags kern)
   \<and> (1 < length (extract_sections kern) \<longrightarrow>
        tags_of (chunk_single_kernel kern) = map (\<lambda>t. Some (JStr t)) (fired_tags kern))
   \<and> (fst ` set kern' = fst ` set kern \<longrightarrow>
        tags_of (extract_sections kern') = tags_of (extract_sections kern))"
proof -
  have "map fst rule_table =
     [''header'', ''emotional_arc'', ''heat_signature'', ''language_motifs'',
      ''physical_anchors'', ''visual_description'', ''dynamics'', ''core_truth'',
      ''cubic_attractor'', ''export'']"
    by (simp add: rule_table_def)
  moreover have "1 < length (extract_sections kern) \<longrightarrow>
        tags_of (chunk_single_kernel kern) = map (\<lambda>t. Some (JStr t)) (fired_tags kern)"
    by (simp add: chunk_single_kernel_def Let_def tags_of_extract_sections)
  moreover have "fst ` set kern' = fst ` set kern \<longrightarrow>
        tags_of (extract_sections kern') = tags_of (extract_sections kern)"
    by (auto simp only: tags_of_extract_sections dest: tags_key_set)
  ultimately show ?thesis
    using tags_of_extract_sections [of kern] by blast
qed

text \<open>
  The theorem at \<open>record_sigil\<close>, whose keys come in the order sigil, heat_signature, id, and
  at the same record with its keys reversed.
\<close>

theorem section_order_fixed_witness:
  "1 < length (extract_sections record_sigil) \<and>
   fst ` set (rev record_sigil) = fst ` set record_sigil \<and>
   tags_of (chunk_single_kernel record_sigil) =
     [Some (JStr ''header''), Some (JStr ''heat_signature''), Some (JStr ''export'')] \<and>
   tags_of (extract_sections (rev record_sigil)) = tags_of (extract_sections record_sigil)"
proof -
  have fired: "fired_tags record_sigil = [''header'', ''heat_signature'', ''export'']"
    by (simp add: record_sigil_def fired_tags_def triggered_def rule_table_def)
  have len: "1 < length (extract_sections record_sigil)"
    by (simp add: sections_record_sigil)
  have keys: "fst ` set (rev record_sigil) = fst ` set record_sigil"
    by simp
  from section_order_fixed [of record_sigil "rev record_sigil"] fired len keys show ?thesis
    by simp
qed

text \<open>
  Claim C10. The ten rules produce at most one section per tag: the tags of the section
  list are pairwise distinct and the list has at most 10 elements, and so has what
  \<^verbatim>\<open>chunk_single_kernel\<close> returns. When segmentation applies, the tags of the result are
  pairwise distinct and every section of the result carries the same \<^verbatim>\<open>id\<close>: the record's, or
  \<^verbatim>\<open>"unknown"\<close>.
\<close>

theorem one_section_per_tag:
  "length (extract_sections kern) \<le> 10
   \<and> distinct (tags_of (extract_sections kern))
   \<and> length (chunk_single_kernel kern) \<le> 10
   \<and> (1 < length (extract_sections kern) \<longrightarrow>
        distinct (tags_of (chunk_single_kernel kern))
        \<and> (\<forall>s\<in>set (chunk_single_kernel kern).
              field s ''id'' = Some (dict_get kern ''id'' (JStr ''unknown''))))"
proof -
  have len: "length (extract_sections kern) \<le> 10"
    unfolding length_extract_sections
    by (rule order_trans [OF length_filter_le]) (simp add: rule_table_def)
  have dist: "distinct (tags_of (extract_sections kern))"
    unfolding tags_of_extract_sections
    by (simp add: distinct_map distinct_fired_tags inj_on_def)
  have ids: "field s ''id'' = Some (dict_get kern ''id'' (JStr ''unknown''))"
    if "s \<in> set (extract_sections kern)" for s
    using section_of_some_rule [OF that] by (auto simp: is_section_def)
  show ?thesis
    using len dist ids by (simp add: chunk_single_kernel_def Let_def)
qed

text \<open>The theorem at \<open>record_sigil\<close>, which has three sections, all with the id \<^verbatim>\<open>"k1"\<close>.\<close>

theorem one_section_per_tag_witness:
  "1 < length (extract_sections record_sigil) \<and>
   length (chunk_single_kernel record_sigil) = 3 \<and>
   distinct (tags_of (chunk_single_kernel record_sigil)) \<and>
   field (chunk_single_kernel record_sigil ! 2) ''id'' = Some (JStr ''k1'')"
proof -
  have len: "1 < length (extract_sections record_sigil)"
    by (simp add: sections_record_sigil)
  have mem: "chunk_single_kernel record_sigil ! 2 \<in> set (chunk_single_kernel record_sigil)"
    and three: "length (chunk_single_kernel record_sigil) = 3"
    by (simp_all add: chunk_single_kernel_def Let_def sections_record_sigil)
  have id: "dict_get record_sigil ''id'' (JStr ''unknown'') = JStr ''k1''"
    by (simp add: record_sigil_def dict_get_def)
  from one_section_per_tag [of record_sigil] len mem three id show ?thesis
    by auto
qed

section \<open>The segmenter on the store\<close>

text \<open>
  Every write of \<^verbatim>\<open>chunk_single_kernel\<close> goes to an object it has allocated itself: \<open>kept\<close>
  holds after each step, so the store of the call stays as it was.
\<close>

lemma kept_record:
  assumes "kept h0 s h" and "dict_at h0 kern = Some kd"
  shows "dict_at h kern = Some kd"
proof -
  have k: "kern < length h0"
    using assms(2) by (auto simp: dict_at_def split: if_splits)
  have "length h0 \<le> length h"
    using assms(1) by (auto simp: kept_def)
  moreover have "h ! kern = h0 ! kern"
    using assms(1) k by (metis kept_def nth_take)
  ultimately show ?thesis
    using assms(2) k by (simp add: dict_at_def)
qed

lemma kept_length: "kept h0 s h \<Longrightarrow> length h0 \<le> length h"
  by (auto simp: kept_def)

lemma kept_start: "kept h (length h) (h @ [HList []])"
  by (simp add: kept_def list_at_def)

lemma kept_new: "kept h0 s h \<Longrightarrow> kept h0 s (h @ [ob])"
  by (auto simp: kept_def list_at_def nth_append split: if_splits)

lemma dict_at_new: "dict_at (h @ [HDict d]) (length h) = Some d"
  by (simp add: dict_at_def)

lemma kept_store_item:
  assumes "kept h0 s h" and "length h0 \<le> a" and "dict_at h a = Some d"
  shows "\<exists>h'. store_item a key v h = Some h' \<and> kept h0 s h' \<and> dict_at h' a \<noteq> None
            \<and> length h' = length h"
  using assms
  by (auto simp: store_item_def kept_def list_at_def dict_at_def nth_list_update
      split: if_splits hobj.splits)

lemma kept_list_append:
  assumes "kept h0 s h"
  shows "\<exists>h'. list_append s v h = Some h' \<and> kept h0 s h'"
  using assms
  by (auto simp: list_append_def kept_def list_at_def split: if_splits hobj.splits)

lemma kept_copy_key:
  assumes "kept h0 s h" and "dict_at h0 kern = Some kd" and "length h0 \<le> a"
    and "dict_at h a \<noteq> None"
  shows "\<exists>h'. h_copy_key kern a key h = Some h' \<and> kept h0 s h' \<and> dict_at h' a \<noteq> None
            \<and> length h' = length h"
proof (cases "map_of kd key")
  case None
  then show ?thesis
    using assms kept_record [OF assms(1,2)] by (simp add: h_copy_key_def)
next
  case (Some v)
  from assms(4) obtain d where "dict_at h a = Some d" by auto
  from kept_store_item [OF assms(1,3) this, of key v] show ?thesis
    using Some kept_record [OF assms(1,2)] by (simp add: h_copy_key_def)
qed

lemma kept_copy_keys:
  assumes "kept h0 s h" and "dict_at h0 kern = Some kd" and "length h0 \<le> a"
    and "dict_at h a \<noteq> None"
  shows "\<exists>h'. h_copy_keys kern a keys h = Some h' \<and> kept h0 s h' \<and> dict_at h' a \<noteq> None
            \<and> length h' = length h"
  using assms
proof (induction keys arbitrary: h)
  case Nil
  then show ?case by simp
next
  case (Cons key keys)
  from kept_copy_key [OF Cons.prems, of key] obtain h1 where
    h1: "h_copy_key kern a key h = Some h1" "kept h0 s h1" "dict_at h1 a \<noteq> None"
        "length h1 = length h"
    by blast
  from Cons.IH [OF h1(2) Cons.prems(2,3) h1(3)] h1 show ?case
    by auto
qed

lemma kept_section:
  assumes "kept h0 s h"
  shows "\<exists>h'. h_section s items h = Some h' \<and> kept h0 s h'"
  using kept_list_append [OF kept_new [OF assms]]
  by (simp add: h_section_def new_obj_def)

lemma kept_get:
  assumes "kept h0 s h" and "dict_at h0 kern = Some kd"
  shows "\<exists>v. h_get h kern key dflt = Some v"
  using kept_record [OF assms] by (simp add: h_get_def)

lemma kept_rule_header:
  assumes "kept h0 s h" and "dict_at h0 kern = Some kd"
  shows "\<exists>h'. h_rule_header kern s h = Some h' \<and> kept h0 s h'"
proof -
  let ?keys = "[''id'', ''title'', ''version'', ''extraction_date'', ''source'', ''deck_id'',
                ''kernel_count'', ''compression_ratio'']"
  have "dict_at (h @ [HDict []]) (length h) \<noteq> None"
    by (simp add: dict_at_new)
  from kept_copy_keys [OF kept_new [OF assms(1)] assms(2) kept_length [OF assms(1)] this,
      of ?keys]
  obtain h1 items where h1: "h_copy_keys kern (length h) ?keys (h @ [HDict []]) = Some h1"
      "kept h0 s h1" "dict_at h1 (length h) = Some items"
    by blast
  from kept_get [OF h1(2) assms(2)] obtain t
    where t: "h_get h1 kern ''title'' (HStr ''Header'') = Some t"
    by blast
  from kept_get [OF h1(2) assms(2)] obtain i
    where i: "h_get h1 kern ''id'' (HStr ''unknown'') = Some i"
    by blast
  show ?thesis
    using h1 t i kept_section [OF h1(2)]
    by (simp add: h_rule_header_def new_obj_def del: h_copy_keys.simps)
qed

lemma kept_rule_single:
  assumes "kept h0 s h" and "dict_at h0 kern = Some kd"
  shows "\<exists>h'. h_rule_single tag label key kern s h = Some h' \<and> kept h0 s h'"
proof -
  from kept_get [OF assms] obtain i where i: "h_get h kern ''id'' (HStr ''unknown'') = Some i"
    by blast
  show ?thesis
    using kept_record [OF assms] i assms(1) kept_section [OF assms(1)]
    by (simp add: h_rule_single_def split: option.splits)
qed

lemma kept_rule_spread:
  assumes "kept h0 s h" and "dict_at h0 kern = Some kd"
  shows "\<exists>h'. h_rule_spread tag label keys kern s h = Some h' \<and> kept h0 s h'"
proof -
  have "dict_at (h @ [HDict []]) (length h) \<noteq> None"
    by (simp add: dict_at_new)
  from kept_copy_keys [OF kept_new [OF assms(1)] assms(2) kept_length [OF assms(1)] this,
      of keys]
  obtain h1 items where h1: "h_copy_keys kern (length h) keys (h @ [HDict []]) = Some h1"
      "kept h0 s h1" "dict_at h1 (length h) = Some items"
    by blast
  from kept_get [OF h1(2) assms(2)] obtain i
    where i: "h_get h1 kern ''id'' (HStr ''unknown'') = Some i"
    by blast
  show ?thesis
    using h1 i kept_section [OF h1(2)]
    by (simp add: h_rule_spread_def new_obj_def del: h_copy_keys.simps)
qed

text \<open>
  Claim C9. \<^verbatim>\<open>chunk_single_kernel\<close> does not mutate its input. Run on any store, at the
  address of a record, it returns, and the store it leaves begins with the store of the
  call, unchanged: the record is the mapping it was, and so is every object that existed
  before the call, among them all the values the record refers to. The list it returns is a
  new object; it holds either the record itself and nothing else (the fallback), or more
  than one section.
\<close>

theorem segment_keeps_store:
  assumes "dict_at h kern = Some kd"
  shows "\<exists>r h' rs. h_chunk_single_kernel kern h = Some (r, h')
           \<and> take (length h) h' = h \<and> dict_at h' kern = Some kd
           \<and> length h \<le> r \<and> list_at h' r = Some rs \<and> (rs = [HRef kern] \<or> 1 < length rs)"
proof -
  let ?s = "length h"
  note k = assms
  from kept_rule_header [OF kept_start k] obtain h1 where
    h1: "h_rule_header kern ?s (h @ [HList []]) = Some h1" "kept h ?s h1" by blast
  from kept_rule_single [OF h1(2) k] obtain h2 where
    h2: "h_rule_single ''emotional_arc'' ''Emotional Arc'' ''emotional_arc'' kern ?s h1 = Some h2"
      "kept h ?s h2" by blast
  from kept_rule_single [OF h2(2) k] obtain h3 where
    h3: "h_rule_single ''heat_signature'' ''Heat Signature'' ''heat_signature'' kern ?s h2
           = Some h3" "kept h ?s h3" by blast
  from kept_rule_spread [OF h3(2) k] obtain h4 where
    h4: "h_rule_spread ''language_motifs'' ''Language & Motifs''
           [''language_patterns'', ''motifs''] kern ?s h3 = Some h4" "kept h ?s h4" by blast
  from kept_rule_single [OF h4(2) k] obtain h5 where
    h5: "h_rule_single ''physical_anchors'' ''Physical Anchors'' ''physical_anchors'' kern ?s h4
           = Some h5" "kept h ?s h5" by blast
  from kept_rule_single [OF h5(2) k] obtain h6 where
    h6: "h_rule_single ''visual_description'' ''Visual Description'' ''visual_description''
           kern ?s h5 = Some h6" "kept h ?s h6" by blast
  from kept_rule_spread [OF h6(2) k] obtain h7 where
    h7: "h_rule_spread ''dynamics'' ''Relationship Dynamics''
           [''consent_pattern'', ''power_dynamic'', ''aftercare''] kern ?s h6 = Some h7"
      "kept h ?s h7" by blast
  from kept_rule_spread [OF h7(2) k] obtain h8 where
    h8: "h_rule_spread ''core_truth'' ''Core Truth & Boundaries''
           [''pattern_boundaries'', ''what_makes_it_work'', ''core_truth'', ''why_it_matters'']
           kern ?s h7 = Some h8" "kept h ?s h8" by blast
  from kept_rule_single [OF h8(2) k] obtain h9 where
    h9: "h_rule_single ''cubic_attractor'' ''Cubic Attractor (Identity)'' ''cubic_attractor''
           kern ?s h8 = Some h9" "kept h ?s h9" by blast
  from kept_rule_spread [OF h9(2) k] obtain h10 where
    h10: "h_rule_spread ''export'' ''Export Notes''
           [''replication_notes'', ''export_notes'', ''closing_image'', ''heat_at_close'',
            ''sigil''] kern ?s h9 = Some h10" "kept h ?s h10" by blast
  from h10(2) obtain secs where secs: "list_at h10 ?s = Some secs"
    by (auto simp: kept_def)
  have same: "take (length h) h10 = h"
    using h10(2) by (simp add: kept_def)
  have len: "length h \<le> length h10"
    using h10(2) by (rule kept_length)
  define res where
    "res = (if length secs > 1 then (?s, h10) else new_obj (HList [HRef kern]) h10)"
  have run: "h_chunk_single_kernel kern h = Some res"
    unfolding h_chunk_single_kernel_def new_obj_def res_def
    using h1(1) h2(1) h3(1) h4(1) h5(1) h6(1) h7(1) h8(1) h9(1) h10(1) secs
    by simp
  have "take (length h) (snd res) = h"
    using same len by (simp add: res_def new_obj_def)
  moreover have "kept h ?s (snd res)"
    using h10(2) by (simp add: res_def new_obj_def kept_new)
  then have "dict_at (snd res) kern = Some kd"
    using k by (rule kept_record)
  moreover have "length h \<le> fst res"
    using len by (simp add: res_def new_obj_def)
  moreover have "\<exists>rs. list_at (snd res) (fst res) = Some rs \<and> (rs = [HRef kern] \<or> 1 < length rs)"
  proof (cases "1 < length secs")
    case True
    then show ?thesis
      using secs by (simp add: res_def)
  next
    case False
    then have "list_at (snd res) (fst res) = Some [HRef kern]"
      by (simp add: res_def new_obj_def list_at_def)
    then show ?thesis
      by simp
  qed
  ultimately show ?thesis
    using run by (cases res) auto
qed

text \<open>
  The theorem at \<open>solo_store\<close>, where the fallback is taken: the call leaves the record at
  address 0 as it was and returns a new list, at address 8, that holds the record itself.
\<close>

theorem segment_keeps_store_witness:
  "dict_at solo_store 0 = Some [(''id'', HStr ''k1''), (''title'', HStr ''Solo'')] \<and>
   (\<exists>r h' rs. h_chunk_single_kernel 0 solo_store = Some (r, h')
      \<and> take (length solo_store) h' = solo_store
      \<and> dict_at h' 0 = Some [(''id'', HStr ''k1''), (''title'', HStr ''Solo'')]
      \<and> length solo_store \<le> r \<and> list_at h' r = Some rs \<and> (rs = [HRef 0] \<or> 1 < length rs)) \<and>
   map_option fst (h_chunk_single_kernel 0 solo_store) = Some 8 \<and>
   map_option (\<lambda>(r, h'). list_at h' r) (h_chunk_single_kernel 0 solo_store)
     = Some (Some [HRef 0])"
proof -
  have rec: "dict_at solo_store 0 = Some [(''id'', HStr ''k1''), (''title'', HStr ''Solo'')]"
    by (simp add: solo_store_def dict_at_def)
  have run: "h_chunk_single_kernel 0 solo_store =
      Some (8, [HDict [(''id'', HStr ''k1''), (''title'', HStr ''Solo'')],
                HList [HRef 3],
                HDict [(''id'', HStr ''k1''), (''title'', HStr ''Solo'')],
                HDict [(''section'', HStr ''header''), (''title'', HStr ''Solo''),
                       (''id'', HStr ''k1''), (''data'', HRef 2)],
                HDict [], HDict [], HDict [], HDict [], HList [HRef 0]])"
    by (simp add: solo_store_def h_chunk_single_kernel_def h_rule_header_def h_rule_single_def
        h_rule_spread_def h_section_def h_copy_key_def h_get_def store_item_def
        list_append_def dict_at_def list_at_def new_obj_def dict_display_def)
  from segment_keeps_store [OF rec] rec run show ?thesis
    by (simp add: list_at_def)
qed

section \<open>The store and the values\<close>

text \<open>
  The two models of \<^verbatim>\<open>chunk_single_kernel\<close> agree: what the function on the store returns
  denotes what the function on values returns.
\<close>

lemma denotes_in_stable:
  assumes "denotes_in F h v j" and "\<forall>a\<in>F. a < length h \<longrightarrow> a < length h' \<and> h' ! a = h ! a"
  shows "denotes_in F h' v j"
  using assms
proof (induction rule: denotes_in.induct)
  case (d_list a xs js)
  have "list_all2 (denotes_in F h') xs js"
    using d_list.IH d_list.prems by (auto elim!: list_all2_mono)
  then show ?case
    using d_list.hyps d_list.prems by (auto intro: denotes_in.d_list)
next
  case (d_dict a d kd)
  have "list_all2 (denotes_in F h') (map snd d) (map snd kd)"
    using d_dict.IH d_dict.prems by (auto elim!: list_all2_mono)
  then show ?case
    using d_dict.hyps d_dict.prems by (auto intro: denotes_in.d_dict)
qed (auto intro: denotes_in.intros)

lemma denotes_in_mono:
  assumes "denotes_in F h v j" and "F \<subseteq> G"
  shows "denotes_in G h v j"
  using assms
proof (induction rule: denotes_in.induct)
  case (d_list a xs js)
  have "list_all2 (denotes_in G h) xs js"
    using d_list.IH d_list.prems by (auto elim!: list_all2_mono)
  then show ?case
    using d_list.hyps d_list.prems by (auto intro: denotes_in.d_list)
next
  case (d_dict a d kd)
  have "list_all2 (denotes_in G h) (map snd d) (map snd kd)"
    using d_dict.IH d_dict.prems by (auto elim!: list_all2_mono)
  then show ?case
    using d_dict.hyps d_dict.prems by (auto intro: denotes_in.d_dict)
qed (auto intro: denotes_in.intros)

lemma denotes_in_valid:
  assumes "denotes_in F h v j"
  shows "denotes_in (F \<inter> {..<length h}) h v j"
  using assms
proof (induction rule: denotes_in.induct)
  case (d_list a xs js)
  have "list_all2 (denotes_in (F \<inter> {..<length h}) h) xs js"
    using d_list.IH by (auto elim!: list_all2_mono)
  then show ?case
    using d_list.hyps by (auto intro: denotes_in.d_list)
next
  case (d_dict a d kd)
  have "list_all2 (denotes_in (F \<inter> {..<length h}) h) (map snd d) (map snd kd)"
    using d_dict.IH by (auto elim!: list_all2_mono)
  then show ?case
    using d_dict.hyps by (auto intro: denotes_in.d_dict)
qed (auto intro: denotes_in.intros)


lemma items_rel_iff:
  "items_rel F h d kd \<longleftrightarrow>
     map fst d = map fst kd \<and> list_all2 (denotes_in F h) (map snd d) (map snd kd)"
proof -
  have "map fst d = map fst kd \<longleftrightarrow> list_all2 (\<lambda>p q. fst p = fst q) d kd"
    unfolding list_all2_eq list_all2_map1 list_all2_map2 ..
  moreover have "list_all2 (\<lambda>p q. fst p = fst q \<and> denotes_in F h (snd p) (snd q)) d kd
      \<longleftrightarrow> list_all2 (\<lambda>p q. fst p = fst q) d kd
          \<and> list_all2 (\<lambda>p q. denotes_in F h (snd p) (snd q)) d kd"
    by (auto simp: list_all2_conv_all_nth)
  ultimately show ?thesis
    by (simp add: items_rel_def list_all2_map1 list_all2_map2)
qed

lemma items_rel_Nil [simp]: "items_rel F h [] []"
  by (simp add: items_rel_def)

lemma items_rel_Cons:
  "denotes_in F h v j \<Longrightarrow> items_rel F h d kd \<Longrightarrow> items_rel F h ((k, v) # d) ((k, j) # kd)"
  by (simp add: items_rel_def)

lemma items_rel_length: "items_rel F h d kd \<Longrightarrow> length d = length kd"
  by (simp add: items_rel_def list_all2_lengthD)

lemma items_rel_empty_iff: "items_rel F h d kd \<Longrightarrow> d = [] \<longleftrightarrow> kd = []"
  by (auto simp: items_rel_def)

lemma items_rel_map_of:
  assumes "items_rel F h d kd"
  shows "(case map_of d k of
            None \<Rightarrow> map_of kd k = None
          | Some v \<Rightarrow> \<exists>j. map_of kd k = Some j \<and> denotes_in F h v j)"
  using assms unfolding items_rel_def
  by (induction rule: list_all2_induct) (auto split: option.splits)

lemma items_rel_update:
  assumes "items_rel F h d kd" and "denotes_in F h v j"
  shows "items_rel F h (AList.update k v d) (AList.update k j kd)"
  using assms unfolding items_rel_def
  by (induction rule: list_all2_induct) auto

lemma items_rel_foldl_update:
  assumes "items_rel F h xs ys" and "items_rel F h acc acc'"
  shows "items_rel F h (foldl (\<lambda>d (k, v). AList.update k v d) acc xs)
           (foldl (\<lambda>d (k, v). AList.update k v d) acc' ys)"
  using assms(1) assms(2) unfolding items_rel_def [of F h xs ys]
proof (induction arbitrary: acc acc' rule: list_all2_induct)
  case Nil
  then show ?case by simp
next
  case (Cons x xs y ys)
  have "items_rel F h (AList.update (fst x) (snd x) acc) (AList.update (fst y) (snd y) acc')"
    using Cons.hyps(1) Cons.prems items_rel_update [of F h acc acc' "snd x" "snd y" "fst x"]
    by simp
  from Cons.IH [OF this] show ?case
    by (simp add: case_prod_beta)
qed

lemma items_rel_display:
  "items_rel F h xs ys \<Longrightarrow> items_rel F h (dict_display xs) (dict_display ys)"
  unfolding dict_display_def by (rule items_rel_foldl_update) simp_all

lemma items_rel_append:
  "items_rel F h xs ys \<Longrightarrow> items_rel F h xs' ys' \<Longrightarrow> items_rel F h (xs @ xs') (ys @ ys')"
  by (simp add: items_rel_def list_all2_appendI)

lemma items_rel_stable:
  assumes "items_rel F h d kd" and "F \<subseteq> G"
    and "\<forall>a\<in>G. a < length h \<longrightarrow> a < length h' \<and> h' ! a = h ! a"
  shows "items_rel G h' d kd"
  using assms unfolding items_rel_def
  by (auto elim!: list_all2_mono intro: denotes_in_stable denotes_in_mono)

lemma denotes_list_stable:
  assumes "list_all2 (denotes_in F h) xs js" and "F \<subseteq> G"
    and "\<forall>a\<in>G. a < length h \<longrightarrow> a < length h' \<and> h' ! a = h ! a"
  shows "list_all2 (denotes_in G h') xs js"
  using assms by (auto elim!: list_all2_mono intro: denotes_in_stable denotes_in_mono)

lemma refines_kept: "refines h0 s F h secs \<Longrightarrow> kept h0 s h"
  by (simp add: refines_def)

lemma kept_same:
  assumes "kept h0 s h" and "a < length h0"
  shows "a < length h \<and> h ! a = h0 ! a"
proof -
  have "take (length h0) h ! a = h ! a"
    using assms(2) by simp
  moreover have "take (length h0) h = h0"
    using assms(1) by (simp add: kept_def)
  ultimately show ?thesis
    using kept_length [OF assms(1)] assms(2) by simp
qed

lemma refines_kernel:
  assumes "refines h0 s F h secs" and "dict_at h0 kern = Some kdh"
    and "items_rel {..<length h0} h0 kdh kd"
  shows "dict_at h kern = Some kdh \<and> items_rel F h kdh kd"
proof -
  have k: "kept h0 s h" and sub: "{..<length h0} \<subseteq> F"
    using assms(1) by (simp_all add: refines_def)
  have same: "\<forall>a\<in>{..<length h0}. a < length h0 \<longrightarrow> a < length h \<and> h ! a = h0 ! a"
    using kept_same [OF k] by blast
  have "items_rel {..<length h0} h kdh kd"
    by (rule items_rel_stable [OF assms(3) subset_refl same])
  then have "items_rel F h kdh kd"
    using sub by (rule items_rel_stable) simp
  then show ?thesis
    using kept_record [OF k assms(2)] by simp
qed

lemma refines_new:
  assumes "refines h0 s F h secs"
  shows "refines h0 s F (h @ [ob]) secs"
proof -
  from assms obtain xs where xs: "list_at h s = Some xs" "list_all2 (denotes_in F h) xs secs"
    by (auto simp: refines_def)
  have "list_all2 (denotes_in F (h @ [ob])) xs secs"
    using xs(2) by (rule denotes_list_stable) (simp_all add: nth_append)
  moreover have "list_at (h @ [ob]) s = Some xs"
    using xs(1) by (auto simp: list_at_def nth_append split: if_splits)
  ultimately show ?thesis
    using assms by (auto simp: refines_def kept_new)
qed

lemma refines_store:
  assumes "refines h0 s F h secs" and "a \<notin> F" and "a \<noteq> s" and "length h0 \<le> a"
  shows "refines h0 s F (h[a := ob]) secs"
proof -
  from assms obtain xs where xs: "list_at h s = Some xs" "list_all2 (denotes_in F h) xs secs"
    by (auto simp: refines_def)
  have same: "\<forall>b\<in>F. b < length h \<longrightarrow> b < length (h[a := ob]) \<and> h[a := ob] ! b = h ! b"
  proof (intro ballI impI)
    fix b assume b: "b \<in> F" "b < length h"
    then have "b \<noteq> a"
      using assms(2) by auto
    then show "b < length (h[a := ob]) \<and> h[a := ob] ! b = h ! b"
      using b(2) by simp
  qed
  have "list_all2 (denotes_in F (h[a := ob])) xs secs"
    by (rule denotes_list_stable [OF xs(2) subset_refl same])
  moreover have "list_at (h[a := ob]) s = Some xs"
    using xs(1) assms(3) by (auto simp: list_at_def split: if_splits)
  moreover have "kept h0 s (h[a := ob])"
    using assms(1,3,4) by (auto simp: refines_def kept_def list_at_def split: if_splits)
  ultimately show ?thesis
    using assms(1) by (auto simp: refines_def)
qed

lemma refines_copy_key:
  assumes "refines h0 s F h secs" and "dict_at h0 kern = Some kdh"
    and "items_rel {..<length h0} h0 kdh kd"
    and "a \<notin> F" and "a \<noteq> s" and "length h0 \<le> a"
    and "dict_at h a = Some items" and "items_rel F h items acc"
  shows "\<exists>h' items'. h_copy_key kern a key h = Some h' \<and> refines h0 s F h' secs
           \<and> dict_at h' a = Some items' \<and> items_rel F h' items' (copy_key kd acc key)"
proof -
  from refines_kernel [OF assms(1-3)]
  have kern: "dict_at h kern = Some kdh" and rel: "items_rel F h kdh kd"
    by simp_all
  show ?thesis
  proof (cases "map_of kdh key")
    case None
    then have "map_of kd key = None"
      using items_rel_map_of [OF rel, of key] by simp
    then show ?thesis
      using None kern assms(1,7,8) by (simp add: h_copy_key_def copy_key_def)
  next
    case (Some v)
    then obtain j where j: "map_of kd key = Some j" "denotes_in F h v j"
      using items_rel_map_of [OF rel, of key] by auto
    let ?h' = "h[a := HDict (AList.update key v items)]"
    have lt: "a < length h"
      using assms(7) by (auto simp: dict_at_def split: if_splits)
    have run: "h_copy_key kern a key h = Some ?h'"
      using Some kern assms(7) by (simp add: h_copy_key_def store_item_def)
    have r: "refines h0 s F ?h' secs"
      using assms(1,4,5,6) by (rule refines_store)
    have d: "dict_at ?h' a = Some (AList.update key v items)"
      using lt by (simp add: dict_at_def)
    have upd: "items_rel F h (AList.update key v items) (AList.update key j acc)"
      using assms(8) j(2) by (rule items_rel_update)
    have same: "\<forall>b\<in>F. b < length h \<longrightarrow> b < length ?h' \<and> ?h' ! b = h ! b"
    proof (intro ballI impI)
      fix b assume b: "b \<in> F" "b < length h"
      then have "b \<noteq> a"
        using assms(4) by auto
      then show "b < length ?h' \<and> ?h' ! b = h ! b"
        using b(2) by simp
    qed
    have "items_rel F ?h' (AList.update key v items) (AList.update key j acc)"
      by (rule items_rel_stable [OF upd subset_refl same])
    then have "items_rel F ?h' (AList.update key v items) (copy_key kd acc key)"
      using j(1) by (simp add: copy_key_def)
    with run r d show ?thesis
      by blast
  qed
qed

lemma refines_copy_keys:
  assumes "refines h0 s F h secs" and "dict_at h0 kern = Some kdh"
    and "items_rel {..<length h0} h0 kdh kd"
    and "a \<notin> F" and "a \<noteq> s" and "length h0 \<le> a"
    and "dict_at h a = Some items" and "items_rel F h items acc"
  shows "\<exists>h' items'. h_copy_keys kern a keys h = Some h' \<and> refines h0 s F h' secs
           \<and> dict_at h' a = Some items' \<and> items_rel F h' items' (foldl (copy_key kd) acc keys)"
  using assms(1,7,8)
proof (induction keys arbitrary: h items acc)
  case Nil
  then show ?case by simp
next
  case (Cons key keys)
  from refines_copy_key [OF Cons.prems(1) assms(2-6) Cons.prems(2,3), of key]
  obtain h1 items1 where h1: "h_copy_key kern a key h = Some h1" "refines h0 s F h1 secs"
      "dict_at h1 a = Some items1" "items_rel F h1 items1 (copy_key kd acc key)"
    by blast
  from Cons.IH [OF h1(2,3,4)] h1(1) show ?case
    by auto
qed

lemma refines_get:
  assumes "refines h0 s F h secs" and "dict_at h0 kern = Some kdh"
    and "items_rel {..<length h0} h0 kdh kd" and "denotes_in F h dflt jd"
  shows "\<exists>v. h_get h kern key dflt = Some v \<and> denotes_in F h v (dict_get kd key jd)"
  using refines_kernel [OF assms(1-3)] assms(4)
    items_rel_map_of [of F h kdh kd key]
  by (auto simp: h_get_def dict_get_def split: option.splits)

lemma refines_section:
  assumes "refines h0 s F h secs" and "items_rel G h items pitems"
    and "F \<subseteq> G" and "s \<notin> G" and "\<forall>a\<in>G. a < length h"
  shows "\<exists>h'. h_section s items h = Some h'
           \<and> refines h0 s (insert (length h) G) h' (secs @ [JObj (dict_display pitems)])"
proof -
  from assms(1) obtain xs where xs: "list_at h s = Some xs"
      "list_all2 (denotes_in F h) xs secs" and k: "kept h0 s h" and sub: "{..<length h0} \<subseteq> F"
    by (auto simp: refines_def)
  let ?b = "length h"
  let ?G = "insert ?b G"
  let ?h1 = "h @ [HDict (dict_display items)]"
  let ?h' = "?h1[s := HList (xs @ [HRef ?b])]"
  have s: "s < length h" "length h0 \<le> s"
    using k by (auto simp: kept_def)
  have run: "h_section s items h = Some ?h'"
    using xs(1) s by (auto simp: h_section_def new_obj_def list_append_def list_at_def nth_append
        split: if_splits)
  have same: "\<forall>a\<in>?G. a < length h \<longrightarrow> a < length ?h' \<and> ?h' ! a = h ! a"
  proof (intro ballI impI)
    fix a assume a: "a \<in> ?G" "a < length h"
    then have "a \<noteq> s"
      using assms(4) s by auto
    then show "a < length ?h' \<and> ?h' ! a = h ! a"
      using a(2) by (simp add: nth_append)
  qed
  have FG: "F \<subseteq> ?G" "G \<subseteq> ?G"
    using assms(3) by auto
  have old: "list_all2 (denotes_in ?G ?h') xs secs"
    by (rule denotes_list_stable [OF xs(2) FG(1) same])
  have "items_rel ?G ?h' items pitems"
    by (rule items_rel_stable [OF assms(2) FG(2) same])
  then have "items_rel ?G ?h' (dict_display items) (dict_display pitems)"
    by (rule items_rel_display)
  moreover have "?h' ! ?b = HDict (dict_display items)"
    using s by simp
  ultimately have "denotes_in ?G ?h' (HRef ?b) (JObj (dict_display pitems))"
    by (intro denotes_in.d_dict [where d = "dict_display items"])
      (simp_all add: items_rel_iff)
  with old have "list_all2 (denotes_in ?G ?h') (xs @ [HRef ?b]) (secs @ [JObj (dict_display pitems)])"
    by (simp add: list_all2_appendI)
  moreover have "list_at ?h' s = Some (xs @ [HRef ?b])"
    using s by (simp add: list_at_def)
  moreover have "kept h0 s ?h'"
    using k s by (auto simp: kept_def list_at_def)
  moreover have "{..<length h0} \<subseteq> ?G" "s \<notin> ?G" "\<forall>a\<in>?G. a < length ?h'"
    using sub assms(3,4,5) s by auto
  ultimately have "refines h0 s ?G ?h' (secs @ [JObj (dict_display pitems)])"
    unfolding refines_def by blast
  with run show ?thesis
    by blast
qed

lemma refines_fresh:
  assumes "refines h0 s F h secs"
  shows "length h \<notin> F" and "length h \<noteq> s" and "length h0 \<le> length h"
    and "refines h0 s F (h @ [HDict []]) secs"
    and "dict_at (h @ [HDict []]) (length h) = Some []"
  using assms refines_new [OF assms, of "HDict []"]
  by (auto simp: refines_def kept_def dict_at_def)

lemma denotes_dict_at:
  assumes "dict_at h a = Some items" and "items_rel F h items kd" and "a \<in> F"
  shows "denotes_in F h (HRef a) (JObj kd)"
proof -
  have "a < length h" and "h ! a = HDict items"
    using assms(1) by (auto simp: dict_at_def split: if_splits hobj.splits)
  then show ?thesis
    using assms(2,3) by (intro denotes_in.d_dict [where d = items]) (simp_all add: items_rel_iff)
qed

lemma items_rel_same_heap:
  assumes "items_rel F h d kd" and "F \<subseteq> G"
  shows "items_rel G h d kd"
  by (rule items_rel_stable [OF assms]) simp

lemma refines_bound: "refines h0 s F h secs \<Longrightarrow> \<forall>a\<in>F. a < length h"
  by (simp add: refines_def)

lemma refines_not_list: "refines h0 s F h secs \<Longrightarrow> s \<notin> F"
  by (simp add: refines_def)

lemma refines_rule_header:
  assumes "refines h0 s F h secs" and "dict_at h0 kern = Some kdh"
    and "items_rel {..<length h0} h0 kdh kd"
  shows "\<exists>h' F'. h_rule_header kern s h = Some h' \<and> refines h0 s F' h' (rule_header kd secs)"
proof -
  let ?keys = "[''id'', ''title'', ''version'', ''extraction_date'', ''source'', ''deck_id'',
                ''kernel_count'', ''compression_ratio'']"
  let ?a = "length h"
  note fresh = refines_fresh [OF assms(1)]
  from refines_copy_keys [OF fresh(4) assms(2,3) fresh(1,2,3,5) items_rel_Nil, of ?keys]
  obtain h2 items where h2: "h_copy_keys kern ?a ?keys (h @ [HDict []]) = Some h2"
      "refines h0 s F h2 secs" "dict_at h2 ?a = Some items"
      "items_rel F h2 items (copy_keys kd ?keys)"
    unfolding copy_keys_def by blast
  show ?thesis
  proof (cases "items = []")
    case True
    then have "copy_keys kd ?keys = []"
      using items_rel_empty_iff [OF h2(4)] by simp
    then have "rule_header kd secs = secs"
      by (simp add: rule_header_def)
    moreover have "h_rule_header kern s h = Some h2"
      using h2(1,3) True by (simp add: h_rule_header_def new_obj_def del: h_copy_keys.simps)
    ultimately show ?thesis
      using h2(2) by auto
  next
    case False
    then have ne: "copy_keys kd ?keys \<noteq> []"
      using items_rel_empty_iff [OF h2(4)] by simp
    from refines_get [OF h2(2) assms(2,3) denotes_in.d_str, of "''title''" "''Header''"]
    obtain t where t: "h_get h2 kern ''title'' (HStr ''Header'') = Some t"
        "denotes_in F h2 t (dict_get kd ''title'' (JStr ''Header''))"
      by blast
    from refines_get [OF h2(2) assms(2,3) denotes_in.d_str, of "''id''" "''unknown''"]
    obtain i where i: "h_get h2 kern ''id'' (HStr ''unknown'') = Some i"
        "denotes_in F h2 i (dict_get kd ''id'' (JStr ''unknown''))"
      by blast
    let ?G = "insert ?a F"
    have sub: "F \<subseteq> ?G"
      by auto
    have dG: "denotes_in ?G h2 (HRef ?a) (JObj (copy_keys kd ?keys))"
      by (rule denotes_dict_at [OF h2(3) items_rel_same_heap [OF h2(4) sub]]) simp
    have tG: "denotes_in ?G h2 t (dict_get kd ''title'' (JStr ''Header''))"
      using t(2) sub by (rule denotes_in_mono)
    have iG: "denotes_in ?G h2 i (dict_get kd ''id'' (JStr ''unknown''))"
      using i(2) sub by (rule denotes_in_mono)
    have rel: "items_rel ?G h2
        [(''section'', HStr ''header''), (''title'', t), (''id'', i), (''data'', HRef ?a)]
        [(''section'', JStr ''header''), (''title'', dict_get kd ''title'' (JStr ''Header'')),
         (''id'', dict_get kd ''id'' (JStr ''unknown'')), (''data'', JObj (copy_keys kd ?keys))]"
      by (intro items_rel_Cons items_rel_Nil denotes_in.d_str dG tG iG)
    have "?a < length h2"
      using h2(3) by (auto simp: dict_at_def split: if_splits)
    then have bound: "\<forall>a\<in>?G. a < length h2"
      using refines_bound [OF h2(2)] by auto
    have "s \<notin> ?G"
      using refines_not_list [OF h2(2)] fresh(2) by auto
    from refines_section [OF h2(2) rel sub this bound]
    obtain h3 where h3: "h_section s
        [(''section'', HStr ''header''), (''title'', t), (''id'', i), (''data'', HRef ?a)] h2
          = Some h3"
      "refines h0 s (insert (length h2) ?G) h3 (rule_header kd secs)"
      using ne by (auto simp: rule_header_def Let_def)
    have "h_rule_header kern s h = Some h3"
      using h2(1,3) False t(1) i(1) h3(1)
      by (simp add: h_rule_header_def new_obj_def del: h_copy_keys.simps)
    then show ?thesis
      using h3(2) by blast
  qed
qed


lemma refines_rule_single:
  assumes "refines h0 s F h secs" and "dict_at h0 kern = Some kdh"
    and "items_rel {..<length h0} h0 kdh kd"
  shows "\<exists>h' F'. h_rule_single tag label key kern s h = Some h'
           \<and> refines h0 s F' h'
               (case map_of kd key of
                  Some v \<Rightarrow>
                    secs @ [JObj (dict_display
                      [(''section'', JStr tag), (''title'', JStr label),
                       (''id'', dict_get kd ''id'' (JStr ''unknown'')), (key, v)])]
                | None \<Rightarrow> secs)"
proof -
  from refines_kernel [OF assms]
  have kern: "dict_at h kern = Some kdh" and krel: "items_rel F h kdh kd"
    by simp_all
  show ?thesis
  proof (cases "map_of kdh key")
    case None
    then have "map_of kd key = None"
      using items_rel_map_of [OF krel, of key] by simp
    then show ?thesis
      using None kern assms(1) by (auto simp: h_rule_single_def)
  next
    case (Some v)
    then obtain j where j: "map_of kd key = Some j" "denotes_in F h v j"
      using items_rel_map_of [OF krel, of key] by auto
    from refines_get [OF assms denotes_in.d_str, of "''id''" "''unknown''"]
    obtain i where i: "h_get h kern ''id'' (HStr ''unknown'') = Some i"
        "denotes_in F h i (dict_get kd ''id'' (JStr ''unknown''))"
      by blast
    have rel: "items_rel F h
        [(''section'', HStr tag), (''title'', HStr label), (''id'', i), (key, v)]
        [(''section'', JStr tag), (''title'', JStr label),
         (''id'', dict_get kd ''id'' (JStr ''unknown'')), (key, j)]"
      by (intro items_rel_Cons items_rel_Nil denotes_in.d_str i(2) j(2))
    from refines_section [OF assms(1) rel subset_refl refines_not_list [OF assms(1)]
        refines_bound [OF assms(1)]]
    obtain h' where h': "h_section s
        [(''section'', HStr tag), (''title'', HStr label), (''id'', i), (key, v)] h = Some h'"
      "refines h0 s (insert (length h) F) h'
         (secs @ [JObj (dict_display
            [(''section'', JStr tag), (''title'', JStr label),
             (''id'', dict_get kd ''id'' (JStr ''unknown'')), (key, j)])])"
      by blast
    have "h_rule_single tag label key kern s h = Some h'"
      using Some kern i(1) h'(1) by (simp add: h_rule_single_def)
    then show ?thesis
      using h'(2) j(1) by auto
  qed
qed

lemma refines_rule_spread:
  assumes "refines h0 s F h secs" and "dict_at h0 kern = Some kdh"
    and "items_rel {..<length h0} h0 kdh kd"
  shows "\<exists>h' F'. h_rule_spread tag label keys kern s h = Some h'
           \<and> refines h0 s F' h'
               (if copy_keys kd keys \<noteq> [] then
                  secs @ [JObj (dict_display
                    ([(''section'', JStr tag), (''title'', JStr label),
                      (''id'', dict_get kd ''id'' (JStr ''unknown''))] @ copy_keys kd keys))]
                else secs)"
proof -
  let ?a = "length h"
  note fresh = refines_fresh [OF assms(1)]
  from refines_copy_keys [OF fresh(4) assms(2,3) fresh(1,2,3,5) items_rel_Nil, of keys]
  obtain h2 items where h2: "h_copy_keys kern ?a keys (h @ [HDict []]) = Some h2"
      "refines h0 s F h2 secs" "dict_at h2 ?a = Some items"
      "items_rel F h2 items (copy_keys kd keys)"
    unfolding copy_keys_def by blast
  show ?thesis
  proof (cases "items = []")
    case True
    then have "copy_keys kd keys = []"
      using items_rel_empty_iff [OF h2(4)] by simp
    moreover have "h_rule_spread tag label keys kern s h = Some h2"
      using h2(1,3) True by (simp add: h_rule_spread_def new_obj_def del: h_copy_keys.simps)
    ultimately show ?thesis
      using h2(2) by auto
  next
    case False
    then have ne: "copy_keys kd keys \<noteq> []"
      using items_rel_empty_iff [OF h2(4)] by simp
    from refines_get [OF h2(2) assms(2,3) denotes_in.d_str, of "''id''" "''unknown''"]
    obtain i where i: "h_get h2 kern ''id'' (HStr ''unknown'') = Some i"
        "denotes_in F h2 i (dict_get kd ''id'' (JStr ''unknown''))"
      by blast
    have "items_rel F h2
        [(''section'', HStr tag), (''title'', HStr label), (''id'', i)]
        [(''section'', JStr tag), (''title'', JStr label),
         (''id'', dict_get kd ''id'' (JStr ''unknown''))]"
      by (intro items_rel_Cons items_rel_Nil denotes_in.d_str i(2))
    then have rel: "items_rel F h2
        ([(''section'', HStr tag), (''title'', HStr label), (''id'', i)] @ items)
        ([(''section'', JStr tag), (''title'', JStr label),
          (''id'', dict_get kd ''id'' (JStr ''unknown''))] @ copy_keys kd keys)"
      using h2(4) by (rule items_rel_append)
    from refines_section [OF h2(2) rel subset_refl refines_not_list [OF h2(2)]
        refines_bound [OF h2(2)]]
    obtain h3 where h3: "h_section s
        ([(''section'', HStr tag), (''title'', HStr label), (''id'', i)] @ items) h2 = Some h3"
      "refines h0 s (insert (length h2) F) h3
         (secs @ [JObj (dict_display
            ([(''section'', JStr tag), (''title'', JStr label),
              (''id'', dict_get kd ''id'' (JStr ''unknown''))] @ copy_keys kd keys))])"
      by blast
    have "h_rule_spread tag label keys kern s h = Some h3"
      using h2(1,3) False i(1) h3(1)
      by (simp add: h_rule_spread_def new_obj_def del: h_copy_keys.simps)
    then show ?thesis
      using h3(2) ne by auto
  qed
qed

text \<open>The ten blocks, each against its block on values.\<close>

lemma refines_blocks:
  assumes "refines h0 s F h secs" and "dict_at h0 kern = Some kdh"
    and "items_rel {..<length h0} h0 kdh kd"
  shows "\<exists>h' F'. h_rule_single ''emotional_arc'' ''Emotional Arc'' ''emotional_arc'' kern s h
            = Some h' \<and> refines h0 s F' h' (rule_emotional_arc kd secs)"
    and "\<exists>h' F'. h_rule_single ''heat_signature'' ''Heat Signature'' ''heat_signature'' kern s h
            = Some h' \<and> refines h0 s F' h' (rule_heat_signature kd secs)"
    and "\<exists>h' F'. h_rule_spread ''language_motifs'' ''Language & Motifs''
            [''language_patterns'', ''motifs''] kern s h
            = Some h' \<and> refines h0 s F' h' (rule_language_motifs kd secs)"
    and "\<exists>h' F'. h_rule_single ''physical_anchors'' ''Physical Anchors'' ''physical_anchors''
            kern s h = Some h' \<and> refines h0 s F' h' (rule_physical_anchors kd secs)"
    and "\<exists>h' F'. h_rule_single ''visual_description'' ''Visual Description''
            ''visual_description'' kern s h
            = Some h' \<and> refines h0 s F' h' (rule_visual_description kd secs)"
    and "\<exists>h' F'. h_rule_spread ''dynamics'' ''Relationship Dynamics''
            [''consent_pattern'', ''power_dynamic'', ''aftercare''] kern s h
            = Some h' \<and> refines h0 s F' h' (rule_dynamics kd secs)"
    and "\<exists>h' F'. h_rule_spread ''core_truth'' ''Core Truth & Boundaries''
            [''pattern_boundaries'', ''what_makes_it_work'', ''core_truth'', ''why_it_matters'']
            kern s h = Some h' \<and> refines h0 s F' h' (rule_core_truth kd secs)"
    and "\<exists>h' F'. h_rule_single ''cubic_attractor'' ''Cubic Attractor (Identity)''
            ''cubic_attractor'' kern s h
            = Some h' \<and> refines h0 s F' h' (rule_cubic_attractor kd secs)"
    and "\<exists>h' F'. h_rule_spread ''export'' ''Export Notes''
            [''replication_notes'', ''export_notes'', ''closing_image'', ''heat_at_close'',
             ''sigil''] kern s h
            = Some h' \<and> refines h0 s F' h' (rule_export kd secs)"
  unfolding rule_emotional_arc_def rule_heat_signature_def rule_language_motifs_def
    rule_physical_anchors_def rule_visual_description_def rule_dynamics_def rule_core_truth_def
    rule_cubic_attractor_def rule_export_def Let_def lang_motifs_eq
  by (rule refines_rule_single [OF assms] refines_rule_spread [OF assms])+


text \<open>
  The function on the store computes what the function on values computes: run at the
  address of a record that denotes \<open>kd\<close>, it returns the address of a list that denotes
  \<open>chunk_single_kernel kd\<close>.
\<close>

lemma store_refines_values:
  assumes "denotes_in UNIV h (HRef kern) (JObj kd)"
  shows "\<exists>r h'. h_chunk_single_kernel kern h = Some (r, h')
           \<and> denotes_in UNIV h' (HRef r) (JArr (chunk_single_kernel kd))"
proof -
  let ?F0 = "{..<length h}"
  let ?s = "length h"
  have rec: "denotes_in ?F0 h (HRef kern) (JObj kd)"
    using denotes_in_valid [OF assms] by simp
  then obtain kdh where kdh: "kern < length h" "h ! kern = HDict kdh" "items_rel ?F0 h kdh kd"
    by (auto elim: denotes_in.cases simp: items_rel_iff)
  then have k1: "dict_at h kern = Some kdh"
    by (simp add: dict_at_def)
  note k2 = kdh(3)
  have start: "refines h ?s ?F0 (h @ [HList []]) []"
    by (simp add: refines_def kept_start list_at_def)
  from refines_rule_header [OF start k1 k2] obtain h1 F1 where
    h1: "h_rule_header kern ?s (h @ [HList []]) = Some h1"
      "refines h ?s F1 h1 (rule_header kd [])" by blast
  from refines_blocks(1) [OF h1(2) k1 k2] obtain h2 F2 where
    h2: "h_rule_single ''emotional_arc'' ''Emotional Arc'' ''emotional_arc'' kern ?s h1 = Some h2"
      "refines h ?s F2 h2 (rule_emotional_arc kd (rule_header kd []))" by blast
  from refines_blocks(2) [OF h2(2) k1 k2] obtain h3 F3 where
    h3: "h_rule_single ''heat_signature'' ''Heat Signature'' ''heat_signature'' kern ?s h2
           = Some h3"
      "refines h ?s F3 h3 (rule_heat_signature kd (rule_emotional_arc kd (rule_header kd [])))"
    by blast
  let ?p3 = "rule_heat_signature kd (rule_emotional_arc kd (rule_header kd []))"
  from refines_blocks(3) [OF h3(2) k1 k2] obtain h4 F4 where
    h4: "h_rule_spread ''language_motifs'' ''Language & Motifs''
           [''language_patterns'', ''motifs''] kern ?s h3 = Some h4"
      "refines h ?s F4 h4 (rule_language_motifs kd ?p3)" by blast
  from refines_blocks(4) [OF h4(2) k1 k2] obtain h5 F5 where
    h5: "h_rule_single ''physical_anchors'' ''Physical Anchors'' ''physical_anchors'' kern ?s h4
           = Some h5"
      "refines h ?s F5 h5 (rule_physical_anchors kd (rule_language_motifs kd ?p3))" by blast
  let ?p5 = "rule_physical_anchors kd (rule_language_motifs kd ?p3)"
  from refines_blocks(5) [OF h5(2) k1 k2] obtain h6 F6 where
    h6: "h_rule_single ''visual_description'' ''Visual Description'' ''visual_description''
           kern ?s h5 = Some h6"
      "refines h ?s F6 h6 (rule_visual_description kd ?p5)" by blast
  from refines_blocks(6) [OF h6(2) k1 k2] obtain h7 F7 where
    h7: "h_rule_spread ''dynamics'' ''Relationship Dynamics''
           [''consent_pattern'', ''power_dynamic'', ''aftercare''] kern ?s h6 = Some h7"
      "refines h ?s F7 h7 (rule_dynamics kd (rule_visual_description kd ?p5))" by blast
  let ?p7 = "rule_dynamics kd (rule_visual_description kd ?p5)"
  from refines_blocks(7) [OF h7(2) k1 k2] obtain h8 F8 where
    h8: "h_rule_spread ''core_truth'' ''Core Truth & Boundaries''
           [''pattern_boundaries'', ''what_makes_it_work'', ''core_truth'', ''why_it_matters'']
           kern ?s h7 = Some h8"
      "refines h ?s F8 h8 (rule_core_truth kd ?p7)" by blast
  from refines_blocks(8) [OF h8(2) k1 k2] obtain h9 F9 where
    h9: "h_rule_single ''cubic_attractor'' ''Cubic Attractor (Identity)'' ''cubic_attractor''
           kern ?s h8 = Some h9"
      "refines h ?s F9 h9 (rule_cubic_attractor kd (rule_core_truth kd ?p7))" by blast
  from refines_blocks(9) [OF h9(2) k1 k2] obtain h10 F where
    h10: "h_rule_spread ''export'' ''Export Notes''
           [''replication_notes'', ''export_notes'', ''closing_image'', ''heat_at_close'',
            ''sigil''] kern ?s h9 = Some h10"
      "refines h ?s F h10 (rule_export kd (rule_cubic_attractor kd (rule_core_truth kd ?p7)))"
    by blast
  have fin: "refines h ?s F h10 (extract_sections kd)"
    using h10(2) by (simp add: extract_sections_def)
  then obtain xs where xs: "list_at h10 ?s = Some xs"
      "list_all2 (denotes_in F h10) xs (extract_sections kd)"
    by (auto simp: refines_def)
  have len: "length xs = length (extract_sections kd)"
    using xs(2) by (rule list_all2_lengthD)
  have k: "kept h ?s h10"
    using fin by (rule refines_kept)
  define res where
    "res = (if length xs > 1 then (?s, h10) else new_obj (HList [HRef kern]) h10)"
  have run: "h_chunk_single_kernel kern h = Some res"
    unfolding h_chunk_single_kernel_def new_obj_def res_def
    using h1(1) h2(1) h3(1) h4(1) h5(1) h6(1) h7(1) h8(1) h9(1) h10(1) xs(1)
    by simp
  have "denotes_in UNIV (snd res) (HRef (fst res)) (JArr (chunk_single_kernel kd))"
  proof (cases "1 < length xs")
    case True
    have "list_all2 (denotes_in UNIV h10) xs (extract_sections kd)"
      by (rule denotes_list_stable [OF xs(2)]) simp_all
    moreover have "?s < length h10" "h10 ! ?s = HList xs"
      using xs(1) by (auto simp: list_at_def split: if_splits hobj.splits)
    ultimately have "denotes_in UNIV h10 (HRef ?s) (JArr (extract_sections kd))"
      by (intro denotes_in.d_list [where xs = xs]) simp_all
    then show ?thesis
      using True len by (simp add: res_def chunk_single_kernel_def)
  next
    case False
    let ?h' = "h10 @ [HList [HRef kern]]"
    have same: "\<forall>a\<in>?F0. a < length h \<longrightarrow> a < length ?h' \<and> ?h' ! a = h ! a"
    proof (intro ballI impI)
      fix a assume "a \<in> ?F0" and a: "a < length h"
      from kept_same [OF k a] have "a < length h10" and "h10 ! a = h ! a"
        by simp_all
      then show "a < length ?h' \<and> ?h' ! a = h ! a"
        by (simp add: nth_append)
    qed
    have "denotes_in ?F0 ?h' (HRef kern) (JObj kd)"
      by (rule denotes_in_stable [OF rec same])
    then have "denotes_in UNIV ?h' (HRef kern) (JObj kd)"
      by (rule denotes_in_mono) simp
    then have "denotes_in UNIV ?h' (HRef (length h10)) (JArr [JObj kd])"
      by (intro denotes_in.d_list [where xs = "[HRef kern]"]) simp_all
    then show ?thesis
      using False len by (simp add: res_def new_obj_def chunk_single_kernel_def)
  qed
  with run show ?thesis
    by (cases res) auto
qed

text \<open>The store \<open>solo_store\<close> holds \<open>record_solo\<close> at address 0.\<close>

lemma solo_store_denotes: "denotes_in UNIV solo_store (HRef 0) (JObj record_solo)"
  by (rule denotes_in.d_dict [where d = "[(''id'', HStr ''k1''), (''title'', HStr ''Solo'')]"])
    (simp_all add: solo_store_def record_solo_def denotes_in.d_str)

section \<open>The controller\<close>

lemma strip_blank:
  assumes "\<forall>c\<in>set t. isspace c"
  shows "strip t = []"
  using assms by (auto simp: strip_def dest: set_dropWhileD)



lemma update_button_fields [simp]:
  "chunks (update_copy_all_button s) = chunks s"
  "current_chunk_index (update_copy_all_button s) = current_chunk_index s"
  "cards (update_copy_all_button s) = cards s"
  "clipboard (update_copy_all_button s) = clipboard s"
  "copy_all_btn_enabled (update_copy_all_button s) = copy_all_btn_enabled s"
  "drop_zone (update_copy_all_button s) = drop_zone s"
  "status_label (update_copy_all_button s) = status_label s"
  by (simp_all add: update_copy_all_button_def Let_def)

lemma copy_kernel_fields [simp]:
  "chunks (copy_kernel dumps i s) = chunks s"
  "current_chunk_index (copy_kernel dumps i s) = current_chunk_index s"
  "copy_all_btn_enabled (copy_kernel dumps i s) = copy_all_btn_enabled s"
  "i < length (cards s) \<Longrightarrow>
     map kernel_data (cards (copy_kernel dumps i s)) = map kernel_data (cards s)"
  "clipboard (copy_kernel dumps i s) = dumps (kernel_data (cards s ! i))"
  by (simp_all add: copy_kernel_def map_update list_update_same_conv)













text \<open>The examples, run.\<close>

lemma strip_solo_text: "strip solo_text = solo_text"
  by (simp add: strip_def solo_text_def isspace_def)


lemma strip_bad_text: "strip ''{bad json'' = ''{bad json''"
  by (simp add: strip_def isspace_def)


lemma solo_text_nonempty: "solo_text \<noteq> []"
  by (simp add: solo_text_def)

lemma loads_solo: "example_loads solo_text = Decoded (JObj record_solo)"
  by (simp add: example_loads_def)


lemma loads_bad_text:
  "example_loads ''{bad json'' =
     JSONDecodeError
       ''Expecting property name enclosed in double quotes: line 1 column 2 (char 1)''"
  by (simp add: example_loads_def deck_text_def solo_text_def)






section \<open>Properties of the controller\<close>

text \<open>
  Claim C5. When the text decodes to a mapping that lacks the key \<^verbatim>\<open>kernels\<close> and either
  lacks \<^verbatim>\<open>id\<close> or has none of \<^verbatim>\<open>emotional_arc\<close>, \<^verbatim>\<open>heat_signature\<close> and \<^verbatim>\<open>cubic_attractor\<close>,
  the parse fails with the message \<^verbatim>\<open>No kernels found in JSON\<close>: \<^verbatim>\<open>process_chunks\<close> returns
  with the status line set to it and everything else as it was, so the document is not
  segmented and does not become the chunk sequence.
\<close>

theorem unsegmentable_mapping_rejected:
  assumes "strip (drop_zone s) \<noteq> []"
    and "loads (strip (drop_zone s)) = Decoded (JObj d)"
    and "''kernels'' \<notin> fst ` set d"
    and "''id'' \<notin> fst ` set d \<or>
         (''emotional_arc'' \<notin> fst ` set d \<and> ''heat_signature'' \<notin> fst ` set d \<and>
          ''cubic_attractor'' \<notin> fst ` set d)"
  shows "extract_kernels (JObj d) = Inl ''No kernels found in JSON'' \<and>
         process_chunks loads s = Returned (s\<lparr>status_label := ''No kernels found in JSON''\<rparr>)"
proof -
  have shape: "extract_kernels (JObj d) = Inl ''No kernels found in JSON''"
    using assms(3,4) by (auto simp: extract_kernels_def in_keys_iff)
  then show ?thesis
    using assms(1,2) by (simp add: process_chunks_def)
qed

text \<open>
  The theorem at the text \<^verbatim>\<open>{"id":"k1","title":"Solo"}\<close>, in a window that holds the two
  chunks of an earlier parse: they stay.
\<close>

theorem unsegmentable_mapping_rejected_witness:
  "strip solo_text \<noteq> [] \<and>
   example_loads (strip solo_text) = Decoded (JObj record_solo) \<and>
   ''kernels'' \<notin> fst ` set record_solo \<and>
   ''emotional_arc'' \<notin> fst ` set record_solo \<and>
   ''heat_signature'' \<notin> fst ` set record_solo \<and>
   ''cubic_attractor'' \<notin> fst ` set record_solo \<and>
   process_chunks example_loads ((deck_window [])\<lparr>drop_zone := solo_text\<rparr>)
     = Returned ((deck_window [])
         \<lparr>drop_zone := solo_text, status_label := ''No kernels found in JSON''\<rparr>)"
proof -
  let ?s = "(deck_window [])\<lparr>drop_zone := solo_text\<rparr>"
  have nonblank: "strip (drop_zone ?s) \<noteq> []"
    by (simp add: strip_solo_text solo_text_nonempty)
  have doc: "example_loads (strip (drop_zone ?s)) = Decoded (JObj record_solo)"
    by (simp add: strip_solo_text loads_solo)
  have keys: "''kernels'' \<notin> fst ` set record_solo"
      "''emotional_arc'' \<notin> fst ` set record_solo"
      "''heat_signature'' \<notin> fst ` set record_solo"
      "''cubic_attractor'' \<notin> fst ` set record_solo"
    by (simp_all add: record_solo_def)
  from unsegmentable_mapping_rejected
    [where s = ?s and loads = example_loads and d = record_solo, OF nonblank doc keys(1)] keys
  have "process_chunks example_loads ?s
          = Returned (?s\<lparr>status_label := ''No kernels found in JSON''\<rparr>)"
    by blast
  then show ?thesis
    using nonblank doc keys by simp
qed



text \<open>
  The failures that \<^verbatim>\<open>process_chunks\<close> reports leave the chunk state alone. When the input
  text is blank, or \<^verbatim>\<open>json.loads\<close> raises \<^verbatim>\<open>JSONDecodeError\<close> on it, or it decodes to a document
  of an unrecognised shape or with no records, \<^verbatim>\<open>process_chunks\<close> returns with a new status
  line and everything else as it was: the chunk sequence, the cursor and the cards are those
  of before. After a \<^verbatim>\<open>JSONDecodeError\<close> the status line is \<^verbatim>\<open>Invalid JSON: \<close> followed by the
  decoder's message.
\<close>

theorem parse_failure_atomic:
  assumes "(\<forall>c\<in>set (drop_zone s). isspace c)
         \<or> (\<exists>e. loads (strip (drop_zone s)) = JSONDecodeError e)
         \<or> (\<exists>data. loads (strip (drop_zone s)) = Decoded data
                \<and> (unrecognized_shape data \<or> zero_records data))"
  shows "\<exists>msg. process_chunks loads s = Returned (s\<lparr>status_label := msg\<rparr>)
           \<and> (\<forall>e. strip (drop_zone s) \<noteq> [] \<and> loads (strip (drop_zone s)) = JSONDecodeError e
                 \<longrightarrow> msg = ''Invalid JSON: '' @ e)"
proof (cases "strip (drop_zone s) = []")
  case True
  then have "process_chunks loads s
               = Returned (s\<lparr>status_label := ''No input - paste or drop a kernel deck''\<rparr>)"
    by (simp add: process_chunks_def)
  with True show ?thesis
    by blast
next
  case False
  then have "\<not> (\<forall>c\<in>set (drop_zone s). isspace c)"
    using strip_blank by blast
  with assms consider
      (malformed) e where "loads (strip (drop_zone s)) = JSONDecodeError e"
    | (shape) data where "loads (strip (drop_zone s)) = Decoded data" "unrecognized_shape data"
    | (empty) data where "loads (strip (drop_zone s)) = Decoded data" "zero_records data"
    by blast
  then show ?thesis
  proof cases
    case malformed
    then have "process_chunks loads s = Returned (s\<lparr>status_label := ''Invalid JSON: '' @ e\<rparr>)"
      using False by (simp add: process_chunks_def)
    with malformed show ?thesis
      by auto
  next
    case shape
    then obtain m where "extract_kernels data = Inl m"
      by (auto simp: unrecognized_shape_def extract_kernels_def in_keys_iff
          split: json.splits option.splits)
    then have "process_chunks loads s = Returned (s\<lparr>status_label := m\<rparr>)"
      using False shape(1) by (simp add: process_chunks_def)
    with shape(1) show ?thesis
      by auto
  next
    case empty
    then obtain ks b where "extract_kernels data = Inr (ks, b)" "\<not> truthy ks"
      by (auto simp: zero_records_def extract_kernels_def truthy_def
          split: json.splits option.splits)
    then have "process_chunks loads s = Returned (s\<lparr>status_label := ''No kernels found''\<rparr>)"
      using False empty(1) by (simp add: process_chunks_def)
    with empty(1) show ?thesis
      by auto
  qed
qed

text \<open>
  The theorem at the text \<^verbatim>\<open>{bad json\<close>, in a window that holds the two chunks of an earlier
  parse with the cursor at 2: the chunks and the cursor stay, the status line reports the
  decoder's message.
\<close>

theorem parse_failure_atomic_witness:
  "\<forall>dumps.
     example_loads (strip ''{bad json'') =
       JSONDecodeError
         ''Expecting property name enclosed in double quotes: line 1 column 2 (char 1)'' \<and>
     process_chunks example_loads ((deck_copied_2 dumps [])\<lparr>drop_zone := ''{bad json''\<rparr>)
       = Returned ((deck_copied_2 dumps [])
           \<lparr>drop_zone := ''{bad json'',
            status_label := ''Invalid JSON: Expecting property name enclosed in double quotes: line 1 column 2 (char 1)''\<rparr>)"
proof
  fix dumps :: "json \<Rightarrow> string"
  let ?s = "(deck_copied_2 dumps [])\<lparr>drop_zone := ''{bad json''\<rparr>"
  let ?e = "''Expecting property name enclosed in double quotes: line 1 column 2 (char 1)''"
  have bad: "example_loads (strip (drop_zone ?s)) = JSONDecodeError ?e"
    by (simp add: strip_bad_text loads_bad_text)
  then have "(\<forall>c\<in>set (drop_zone ?s). isspace c)
         \<or> (\<exists>e. example_loads (strip (drop_zone ?s)) = JSONDecodeError e)
         \<or> (\<exists>data. example_loads (strip (drop_zone ?s)) = Decoded data
                \<and> (unrecognized_shape data \<or> zero_records data))"
    by blast
  from parse_failure_atomic [where s = ?s and loads = example_loads, OF this] obtain msg where
    run: "process_chunks example_loads ?s = Returned (?s\<lparr>status_label := msg\<rparr>)"
    and msg: "\<forall>e. strip (drop_zone ?s) \<noteq> [] \<and>
                example_loads (strip (drop_zone ?s)) = JSONDecodeError e
              \<longrightarrow> msg = ''Invalid JSON: '' @ e"
    by blast
  have "strip (drop_zone ?s) \<noteq> []"
    by (simp add: strip_bad_text)
  with msg bad have "msg = ''Invalid JSON: '' @ ?e"
    by blast
  with run bad
  show "example_loads (strip ''{bad json'') = JSONDecodeError ?e \<and>
     process_chunks example_loads ?s
       = Returned ((deck_copied_2 dumps [])
           \<lparr>drop_zone := ''{bad json'',
            status_label := ''Invalid JSON: Expecting property name enclosed in double quotes: line 1 column 2 (char 1)''\<rparr>)"
    by (simp add: strip_bad_text)
qed

text \<open>A text that begins and ends with a character that is not white space is its own strip.\<close>

lemma strip_unpadded:
  assumes "t \<noteq> []" and "\<not> isspace (hd t)" and "\<not> isspace (last t)"
  shows "strip t = t"
proof -
  have "dropWhile isspace t = t"
    using assms(2) by (simp add: dropWhile_eq_self_iff)
  moreover have "dropWhile isspace (rev t) = rev t"
    using assms(1,3) by (simp add: dropWhile_eq_self_iff hd_rev)
  ultimately show ?thesis
    by (simp add: strip_def)
qed

lemma strip_deep_text: "strip deep_text = deep_text"
  by (rule strip_unpadded) (simp_all add: deep_text_def isspace_def)

text \<open>
  Claim C7 says that every text on which parsing fails, malformed text among them, leaves the
  chunk sequence and the cursor as they were, malformed text yielding a decode error. The
  code does not do that on \<open>deep_text\<close>. \<^verbatim>\<open>process_chunks\<close> catches \<^verbatim>\<open>json.JSONDecodeError\<close> and
  nothing else, so the \<^verbatim>\<open>RecursionError\<close> that \<^verbatim>\<open>json.loads\<close> raises on this malformed text
  leaves the handler: no decode error is reported, and the run ends with the two chunks of
  the window and its cursor. The handlers \<^verbatim>\<open>load_file\<close> and \<^verbatim>\<open>dropEvent\<close> of the same class
  catch \<^verbatim>\<open>Exception\<close>.
\<close>

theorem deep_text_ends_run:
  "deep_text \<noteq> [] \<and> strip deep_text = deep_text \<and> nested_loads deep_text = OtherError \<and>
   chunks (deck_window []) = [JObj [(''id'', JStr ''a'')], JObj [(''id'', JStr ''b'')]] \<and>
   process_chunks nested_loads ((deck_window [])\<lparr>drop_zone := deep_text\<rparr>) = Crash"
proof -
  have ne: "deep_text \<noteq> []"
    by (simp add: deep_text_def)
  have raised: "nested_loads deep_text = OtherError"
    by (simp add: nested_loads_def)
  have "process_chunks nested_loads ((deck_window [])\<lparr>drop_zone := deep_text\<rparr>) = Crash"
    using ne raised by (simp add: process_chunks_def strip_deep_text)
  moreover have "chunks (deck_window []) = [JObj [(''id'', JStr ''a'')], JObj [(''id'', JStr ''b'')]]"
    by (simp add: deck_window_def)
  ultimately show ?thesis
    using ne raised strip_deep_text by simp
qed



end
